theory Spec2Isabelle
  imports Complex_Main "HOL-Library.Sublist" "HOL-Library.AList"
begin

section \<open>Numbers and strings\<close>

text \<open>
  The development embeds the retrieval route of the repository (the App Router handler
  \<^verbatim>\<open>POST\<close> with \<^verbatim>\<open>performHybridSearch\<close> and \<^verbatim>\<open>enhanceWithLLM\<close>) and the
  older Pages handler \<^verbatim>\<open>src/backend/api/rag-pipeline.ts\<close>, whose
  \<^verbatim>\<open>performHybridSearch\<close>, \<^verbatim>\<open>normalizeScore\<close>, \<^verbatim>\<open>computeTextSimilarity\<close> and
  \<^verbatim>\<open>normalizeStory\<close> are the same code.

  JavaScript numbers are modelled as real numbers: rounding, NaN and the infinities of
  IEEE doubles are outside the model, and where the source can divide by zero the model
  says so explicitly. Strings are lists of 8-bit characters; \<^verbatim>\<open>\s\<close> is the ASCII
  white space and case conversion acts on the ASCII letters.
\<close>

definition is_space :: "char \<Rightarrow> bool" where
  "is_space c \<longleftrightarrow> c \<in> set [CHR 0x09, CHR 0x0A, CHR 0x0B, CHR 0x0C, CHR 0x0D, CHR '' '']"

definition upper_letters :: string where
  "upper_letters = ''ABCDEFGHIJKLMNOPQRSTUVWXYZ''"

definition lower_letters :: string where
  "lower_letters = ''abcdefghijklmnopqrstuvwxyz''"

definition lower_char :: "char \<Rightarrow> char" where
  "lower_char c = (case map_of (zip upper_letters lower_letters) c of Some l \<Rightarrow> l | None \<Rightarrow> c)"

definition upper_char :: "char \<Rightarrow> char" where
  "upper_char c = (case map_of (zip lower_letters upper_letters) c of Some u \<Rightarrow> u | None \<Rightarrow> c)"

definition toLowerCase :: "string \<Rightarrow> string" where
  "toLowerCase s = map lower_char s"

definition toUpperCase :: "string \<Rightarrow> string" where
  "toUpperCase s = map upper_char s"

text \<open>
  \<^verbatim>\<open>s.split(/\s+/)\<close>: the pieces between the maximal runs of white space. A run at the
  start or at the end of the string leaves an empty piece there, and the empty string
  splits into one empty piece. The flag says that the previous character was white
  space, \<open>cur\<close> is the current piece, reversed.
\<close>

fun split_ws :: "bool \<Rightarrow> string \<Rightarrow> string \<Rightarrow> string list" where
  "split_ws ws cur [] = [rev cur]"
| "split_ws ws cur (c # cs) =
     (if is_space c then (if ws then split_ws True cur cs else rev cur # split_ws True [] cs)
      else split_ws False (c # cur) cs)"

definition split :: "string \<Rightarrow> string list" where
  "split s = split_ws False [] s"

text \<open>
  \<^verbatim>\<open>new Set(array)\<close>: the elements in the order of their first insertion; \<^verbatim>\<open>.size\<close> is
  its length.
\<close>

definition Set_add :: "'a \<Rightarrow> 'a list \<Rightarrow> 'a list" where
  "Set_add x s = (if x \<in> set s then s else s @ [x])"

definition new_Set :: "'a list \<Rightarrow> 'a list" where
  "new_Set xs = fold Set_add xs []"

section \<open>The two raw signals\<close>

text \<open>
  \<^verbatim>\<open>
  function computeTextSimilarity(text1, text2) {
      const words1 = new Set(text1.split(/\s+/));
      const words2 = new Set(text2.split(/\s+/));
      const intersection = new Set([...words1].filter(x => words2.has(x)));
      const union = new Set([...words1, ...words2]);
      return intersection.size / union.size;
  }
  \<close>
\<close>

definition computeTextSimilarity :: "string \<Rightarrow> string \<Rightarrow> real" where
  "computeTextSimilarity text1 text2 =
     (let words1 = new_Set (split text1);
          words2 = new_Set (split text2);
          intersection = new_Set (filter (\<lambda>x. x \<in> set words2) words1);
          union = new_Set (words1 @ words2)
      in real (length intersection) / real (length union))"

text \<open>
  \<^verbatim>\<open>
  function computeCosineSimilarity(vec1, vec2) {
      if (!vec1 || !vec2 || vec1.length !== vec2.length) return 0;
      let dot = 0, na = 0, nb = 0;
      for (let i = 0; i < vec1.length; i++) {
          dot += vec1[i] * vec2[i]; na += vec1[i] * vec1[i]; nb += vec2[i] * vec2[i];
      }
      if (na === 0 || nb === 0) return 0;
      return dot / (Math.sqrt(na) * Math.sqrt(nb));
  }
  \<close>
\<close>

fun cosine_loop :: "real list \<Rightarrow> real list \<Rightarrow> real \<times> real \<times> real \<Rightarrow> real \<times> real \<times> real" where
  "cosine_loop (a # as) (b # bs) (dot, na, nb) =
     cosine_loop as bs (dot + a * b, na + a * a, nb + b * b)"
| "cosine_loop _ _ acc = acc"

definition computeCosineSimilarity :: "real list \<Rightarrow> real list \<Rightarrow> real" where
  "computeCosineSimilarity vec1 vec2 =
     (if length vec1 \<noteq> length vec2 then 0
      else case cosine_loop vec1 vec2 (0, 0, 0) of (dot, na, nb) \<Rightarrow>
        if na = 0 \<or> nb = 0 then 0 else dot / (sqrt na * sqrt nb))"

section \<open>Score normalisation\<close>

text \<open>
  \<^verbatim>\<open>
  function normalizeScore(score, min, max) {
      if (max === min) return 1;
      return (score - min) / (max - min);
  }
  \<close>
\<close>

definition normalizeScore :: "real \<Rightarrow> real \<Rightarrow> real \<Rightarrow> real" where
  "normalizeScore score mn mx = (if mx = mn then 1 else (score - mn) / (mx - mn))"

text \<open>
  \<^verbatim>\<open>Math.min(...scores)\<close> and \<^verbatim>\<open>Math.max(...scores)\<close> of a batch that is not empty
  (the caller returns before them when it is), given by its first score and the rest.
\<close>

definition Math_min :: "real \<Rightarrow> real list \<Rightarrow> real" where
  "Math_min x xs = fold min xs x"

definition Math_max :: "real \<Rightarrow> real list \<Rightarrow> real" where
  "Math_max x xs = fold max xs x"

section \<open>Documents, candidates and the hybrid search\<close>

datatype meta_value = MString string | MStrings "string list" | MNumber real

type_synonym metadata = "(string \<times> meta_value) list"

text \<open>
  A stored story. \<open>d_id\<close> is \<^verbatim>\<open>_id.toString()\<close>, which every stored document has.
\<close>

record document =
  d_id :: string
  d_content :: string
  storyId :: "string option"
  d_description :: "string option"
  d_metadata :: metadata
  embedding :: "real list option"

text \<open>The entry of \<^verbatim>\<open>mergedMap\<close> and of the ranking that the search returns.\<close>

record ranked =
  r_id :: string
  content :: string
  key :: "string option"
  description :: "string option"
  metadata :: metadata
  vector_score :: real
  bm25_score :: real
  vector_score_norm :: real
  bm25_score_norm :: real
  hybrid_score :: real

text \<open>The configuration that \<^verbatim>\<open>performHybridSearch\<close> and \<^verbatim>\<open>enhanceWithLLM\<close> receive.\<close>

record RAGConfig =
  vectorWeight :: real
  bm25Weight :: real
  hybridWeight :: real
  topK :: "int option"

text \<open>
  \<^verbatim>\<open>array.slice(0, end)\<close>: a negative \<open>end\<close> counts from the end of the array, an
  undefined one is the length.
\<close>

definition slice0 :: "'a list \<Rightarrow> int option \<Rightarrow> 'a list" where
  "slice0 xs e = (case e of None \<Rightarrow> xs
     | Some k \<Rightarrow> if k < 0 then take (nat (int (length xs) + k)) xs else take (nat k) xs)"

text \<open>
  The scoring loop over the documents: a document without content is skipped; one with an
  embedding is pushed to \<^verbatim>\<open>knnResults\<close> with its cosine similarity; every other one is
  pushed to \<^verbatim>\<open>textResults\<close> with the similarity of the lower-cased texts. Nothing in the
  body of the loop throws, so its handlers are never entered.
\<close>

fun score_documents ::
  "real list \<Rightarrow> string \<Rightarrow> document list \<Rightarrow> (document \<times> real) list \<times> (document \<times> real) list" where
  "score_documents emb text [] = ([], [])"
| "score_documents emb text (doc # docs) =
     (case score_documents emb text docs of (knnResults, textResults) \<Rightarrow>
        if d_content doc = [] then (knnResults, textResults)
        else
          ((case embedding doc of
              Some e \<Rightarrow> (doc, computeCosineSimilarity emb e) # knnResults
            | None \<Rightarrow> knnResults),
           (doc, computeTextSimilarity (toLowerCase text) (toLowerCase (d_content doc)))
             # textResults))"

datatype score_field = Vector_score | Bm25_score

text \<open>
  The search exists twice in the repository: in the Pages handler
  (\<^verbatim>\<open>src/backend/api/rag-pipeline.ts\<close>) and in the App Router route. The two differ in the
  fields a new map entry copies and in a fallback for the vector signal; the route says
  which one is meant.
\<close>

datatype route = Pages | App

text \<open>
  \<^verbatim>\<open>
  const addToMap = (doc, scoreField) => {
      const id = doc._id?.toString?.() ?? JSON.stringify(doc);
      const existing = mergedMap.get(id) || { _id: doc._id, content: doc.content,
          key: doc.storyId, description: doc.description, metadata: doc.metadata,
          vector_score: 0, bm25_score: 0, vector_score_norm: 0, bm25_score_norm: 0,
          hybrid_score: 0 };
      existing[scoreField] = doc[scoreField] ?? 0;
      mergedMap.set(id, existing);
  };
  \<close>
  The map is an association list in insertion order, as a JavaScript \<^verbatim>\<open>Map\<close> iterates;
  \<^verbatim>\<open>set\<close> on a key that is present keeps its place. The Pages handler has no
  \<^verbatim>\<open>key\<close> and no \<^verbatim>\<open>description\<close> in the new entry.
\<close>

definition new_entry :: "route \<Rightarrow> document \<Rightarrow> ranked" where
  "new_entry rt doc = \<lparr> r_id = d_id doc, content = d_content doc,
     key = (case rt of App \<Rightarrow> storyId doc | Pages \<Rightarrow> None),
     description = (case rt of App \<Rightarrow> d_description doc | Pages \<Rightarrow> None),
     metadata = d_metadata doc,
     vector_score = 0, bm25_score = 0, vector_score_norm = 0, bm25_score_norm = 0,
     hybrid_score = 0 \<rparr>"

definition set_score :: "score_field \<Rightarrow> real \<Rightarrow> ranked \<Rightarrow> ranked" where
  "set_score scoreField v existing =
     (case scoreField of Vector_score \<Rightarrow> existing\<lparr>vector_score := v\<rparr>
                       | Bm25_score \<Rightarrow> existing\<lparr>bm25_score := v\<rparr>)"

definition addToMap ::
  "route \<Rightarrow> score_field \<Rightarrow> document \<times> real \<Rightarrow> (string \<times> ranked) list
     \<Rightarrow> (string \<times> ranked) list" where
  "addToMap rt scoreField d mergedMap =
     (let doc = fst d;
          ident = d_id doc;
          existing = (case map_of mergedMap ident of Some e \<Rightarrow> e | None \<Rightarrow> new_entry rt doc)
      in AList.update ident (set_score scoreField (snd d) existing) mergedMap)"

text \<open>
  \<^verbatim>\<open>
  knnResults.forEach((d) => addToMap(d, 'vector_score'));
  textResults.forEach((d) => addToMap(d, 'bm25_score'));
  const merged = Array.from(mergedMap.values());
  \<close>
\<close>

definition mergedMap ::
  "route \<Rightarrow> (document \<times> real) list \<Rightarrow> (document \<times> real) list \<Rightarrow> (string \<times> ranked) list" where
  "mergedMap rt knnResults textResults =
     fold (addToMap rt Bm25_score) textResults (fold (addToMap rt Vector_score) knnResults [])"

definition merged ::
  "route \<Rightarrow> (document \<times> real) list \<Rightarrow> (document \<times> real) list \<Rightarrow> ranked list" where
  "merged rt knnResults textResults = map snd (mergedMap rt knnResults textResults)"

text \<open>
  Normalisation of both signals over the batch and the two-signal score:
  \<^verbatim>\<open>
  const normalizedResults = merged.map((result) => {
      const vectorScoreNorm = normalizeScore(vectorScore, minVectorScore, maxVectorScore);
      const bm25ScoreNorm = normalizeScore(bm25Score, minBM25Score, maxBM25Score);
      return { ...result, vector_score_norm: vectorScoreNorm, bm25_score_norm: bm25ScoreNorm,
          hybrid_score: (vectorScoreNorm * config.vectorWeight)
                      + (bm25ScoreNorm * config.bm25Weight) };
  });
  \<close>
\<close>

definition normalize_result :: "RAGConfig \<Rightarrow> real \<Rightarrow> real \<Rightarrow> real \<Rightarrow> real \<Rightarrow> ranked \<Rightarrow> ranked" where
  "normalize_result config minVectorScore maxVectorScore minBM25Score maxBM25Score result =
     (let vectorScoreNorm = normalizeScore (vector_score result) minVectorScore maxVectorScore;
          bm25ScoreNorm = normalizeScore (bm25_score result) minBM25Score maxBM25Score
      in result\<lparr> vector_score_norm := vectorScoreNorm, bm25_score_norm := bm25ScoreNorm,
           hybrid_score := vectorScoreNorm * vectorWeight config
                         + bm25ScoreNorm * bm25Weight config \<rparr>)"

definition normalizedResults :: "RAGConfig \<Rightarrow> ranked \<Rightarrow> ranked list \<Rightarrow> ranked list" where
  "normalizedResults config m ms =
     (let vectorScores = map vector_score ms;
          bm25Scores = map bm25_score ms;
          minVectorScore = Math_min (vector_score m) vectorScores;
          maxVectorScore = Math_max (vector_score m) vectorScores;
          minBM25Score = Math_min (bm25_score m) bm25Scores;
          maxBM25Score = Math_max (bm25_score m) bm25Scores
      in map (normalize_result config minVectorScore maxVectorScore minBM25Score maxBM25Score)
           (m # ms))"

text \<open>
  \<^verbatim>\<open>
  const deduplicated = normalizedResults
      .sort((a, b) => b.hybrid_score - a.hybrid_score)
      .filter((story, index, self) =>
          index === self.findIndex((s) => s._id.toString() === story._id.toString()));
  return deduplicated.slice(0, config.topK);
  \<close>
  \<^verbatim>\<open>Array.prototype.sort\<close> is stable, so the sort is the stable sort on the negated score.
\<close>

fun findIndex :: "('a \<Rightarrow> bool) \<Rightarrow> 'a list \<Rightarrow> nat option" where
  "findIndex p [] = None"
| "findIndex p (x # xs) = (if p x then Some 0 else map_option Suc (findIndex p xs))"

definition sort_desc :: "('a \<Rightarrow> real) \<Rightarrow> 'a list \<Rightarrow> 'a list" where
  "sort_desc f xs = sort_key (\<lambda>x. - f x) xs"

definition first_by_id :: "ranked list \<Rightarrow> ranked list" where
  "first_by_id self =
     map snd (filter (\<lambda>(index, story). findIndex (\<lambda>s. r_id s = r_id story) self = Some index)
                (enumerate 0 self))"

definition deduplicated :: "ranked list \<Rightarrow> ranked list" where
  "deduplicated results = first_by_id (sort_desc hybrid_score results)"

definition placeholder :: ranked where
  "placeholder = \<lparr> r_id = ''1'', content = ''Example story - No actual stories in database'',
     key = None, description = None,
     metadata =
       [(''description'',
           MString ''This is a placeholder because no stories exist in the database.''),
        (''acceptanceCriteria'',
           MStrings [''Add some user stories to the database to see real results'']),
        (''priority'', MString ''high''),
        (''status'', MString ''not-started'')],
     vector_score = 0, bm25_score = 0, vector_score_norm = 0, bm25_score_norm = 0,
     hybrid_score = 0 \<rparr>"

text \<open>
  The fallback of the Pages handler: when \<^verbatim>\<open>knnResults\<close> is empty, the vector signal is
  computed again from the entries of \<^verbatim>\<open>textResults\<close> that carry an embedding that is
  not empty, with a local \<^verbatim>\<open>cosine\<close> that is \<^verbatim>\<open>computeCosineSimilarity\<close> word for word.
  The new entries keep \<^verbatim>\<open>_id\<close>, \<^verbatim>\<open>content\<close> and \<^verbatim>\<open>metadata\<close> only.
\<close>

definition knn_fallback ::
  "real list \<Rightarrow> (document \<times> real) list \<Rightarrow> (document \<times> real) list \<Rightarrow> (document \<times> real) list" where
  "knn_fallback emb knnResults textResults =
     (if length knnResults = 0 then
        map (\<lambda>(d, s).
               (\<lparr> d_id = d_id d, d_content = d_content d, storyId = None,
                   d_description = None, d_metadata = d_metadata d, embedding = None \<rparr>,
                computeCosineSimilarity emb (case embedding d of Some e \<Rightarrow> e | None \<Rightarrow> [])))
          (filter (\<lambda>(d, s). case embedding d of Some e \<Rightarrow> length e > 0 | None \<Rightarrow> False)
             textResults)
      else knnResults)"

text \<open>
  \<^verbatim>\<open>performHybridSearch(collection, embedding, text, config)\<close>. The collection is the list
  of its documents in the order in which \<^verbatim>\<open>find({}).toArray()\<close> lists them, and
  \<^verbatim>\<open>countDocuments()\<close> is its length.
\<close>

definition performHybridSearch ::
  "route \<Rightarrow> document list \<Rightarrow> real list \<Rightarrow> string \<Rightarrow> RAGConfig \<Rightarrow> ranked list" where
  "performHybridSearch rt documents emb text config =
     (if length documents = 0 then [placeholder]
      else case score_documents emb text documents of (knnResults0, textResults) \<Rightarrow>
        (let knnResults = (case rt of Pages \<Rightarrow> knn_fallback emb knnResults0 textResults
                                    | App \<Rightarrow> knnResults0)
         in case merged rt knnResults textResults of
              [] \<Rightarrow> []
            | m # ms \<Rightarrow> slice0 (deduplicated (normalizedResults config m ms)) (topK config)))"

section \<open>Weights\<close>

text \<open>
  The configuration of a request body: every field may be missing.
\<close>

record request_config =
  rc_vectorWeight :: "real option"
  rc_bm25Weight :: "real option"
  rc_hybridWeight :: "real option"
  rc_topK :: "int option"

definition DEFAULT_CONFIG :: request_config where
  "DEFAULT_CONFIG = \<lparr> rc_vectorWeight = Some (6 / 10), rc_bm25Weight = Some (3 / 10),
     rc_hybridWeight = Some (1 / 10), rc_topK = Some 6 \<rparr>"

definition nullish :: "'a option \<Rightarrow> 'a \<Rightarrow> 'a" where
  "nullish x d = (case x of Some v \<Rightarrow> v | None \<Rightarrow> d)"

text \<open>
  The App Router route:
  \<^verbatim>\<open>
  const { story, config = DEFAULT_CONFIG } = body;
  const v = config.vectorWeight ?? DEFAULT_CONFIG.vectorWeight;
  const b = config.bm25Weight ?? DEFAULT_CONFIG.bm25Weight;
  const h = config.hybridWeight ?? DEFAULT_CONFIG.hybridWeight ?? 0;
  const totalWeight = v + b + h || 1;
  const normalizedConfig = { ...config, vectorWeight: v / totalWeight,
      bm25Weight: b / totalWeight, hybridWeight: h / totalWeight };
  \<close>
\<close>

definition POST_weights :: "request_config \<Rightarrow> real \<times> real \<times> real" where
  "POST_weights config =
     (nullish (rc_vectorWeight config) (6 / 10),
      nullish (rc_bm25Weight config) (3 / 10),
      nullish (rc_hybridWeight config) (1 / 10))"

definition POST_normalizedConfig :: "request_config option \<Rightarrow> RAGConfig" where
  "POST_normalizedConfig body_config =
     (let config = nullish body_config DEFAULT_CONFIG in
      case POST_weights config of (v, b, h) \<Rightarrow>
        let totalWeight = (if v + b + h = 0 then 1 else v + b + h)
        in \<lparr> vectorWeight = v / totalWeight, bm25Weight = b / totalWeight,
             hybridWeight = h / totalWeight, topK = rc_topK config \<rparr>)"


section \<open>Regular expressions\<close>

text \<open>
  The regular expressions of the source are values of a small syntax, matched by
  backtracking as JavaScript does: alternatives in order, a greedy repetition longest
  first, a lazy one shortest first. Repetition is over single characters only, which is
  all the source uses. The continuation receives the rest of the input and the text of
  capture group 1.
\<close>

datatype rx =
    Cls "char \<Rightarrow> bool"
  | Eps
  | Seq rx rx
  | Alt rx rx
  | Opt rx
  | StarG "char \<Rightarrow> bool"
  | PlusG "char \<Rightarrow> bool"
  | PlusL "char \<Rightarrow> bool"
  | Grp rx
  | Eos

fun rep_greedy :: "(char \<Rightarrow> bool) \<Rightarrow> string \<Rightarrow> (string \<Rightarrow> 'r option) \<Rightarrow> 'r option" where
  "rep_greedy p [] k = k []"
| "rep_greedy p (c # cs) k =
     (if p c then (case rep_greedy p cs k of Some r \<Rightarrow> Some r | None \<Rightarrow> k (c # cs))
      else k (c # cs))"

fun rep_lazy :: "(char \<Rightarrow> bool) \<Rightarrow> string \<Rightarrow> (string \<Rightarrow> 'r option) \<Rightarrow> 'r option" where
  "rep_lazy p [] k = k []"
| "rep_lazy p (c # cs) k =
     (case k (c # cs) of Some r \<Rightarrow> Some r
      | None \<Rightarrow> if p c then rep_lazy p cs k else None)"

fun rx_m ::
  "rx \<Rightarrow> string \<Rightarrow> string option \<Rightarrow> (string \<Rightarrow> string option \<Rightarrow> 'r option) \<Rightarrow> 'r option" where
  "rx_m (Cls p) s cap k = (case s of [] \<Rightarrow> None | c # cs \<Rightarrow> if p c then k cs cap else None)"
| "rx_m Eps s cap k = k s cap"
| "rx_m (Seq a b) s cap k = rx_m a s cap (\<lambda>s' cap'. rx_m b s' cap' k)"
| "rx_m (Alt a b) s cap k =
     (case rx_m a s cap k of Some r \<Rightarrow> Some r | None \<Rightarrow> rx_m b s cap k)"
| "rx_m (Opt a) s cap k = (case rx_m a s cap k of Some r \<Rightarrow> Some r | None \<Rightarrow> k s cap)"
| "rx_m (StarG p) s cap k = rep_greedy p s (\<lambda>s'. k s' cap)"
| "rx_m (PlusG p) s cap k =
     (case s of [] \<Rightarrow> None
      | c # cs \<Rightarrow> if p c then rep_greedy p cs (\<lambda>s'. k s' cap) else None)"
| "rx_m (PlusL p) s cap k =
     (case s of [] \<Rightarrow> None
      | c # cs \<Rightarrow> if p c then rep_lazy p cs (\<lambda>s'. k s' cap) else None)"
| "rx_m (Grp a) s cap k =
     rx_m a s cap (\<lambda>s' cap'. k s' (Some (take (length s - length s') s)))"
| "rx_m Eos s cap k = (if s = [] then k s cap else None)"

text \<open>
  A match at the start of the input (a pattern that begins with \<^verbatim>\<open>^\<close>) and the
  leftmost match anywhere; both give the matched text and capture group 1.
\<close>

definition rx_at :: "rx \<Rightarrow> string \<Rightarrow> (string \<times> string option) option" where
  "rx_at r s = rx_m r s None (\<lambda>rest cap. Some (take (length s - length rest) s, cap))"

fun rx_search :: "rx \<Rightarrow> string \<Rightarrow> (string \<times> string option) option" where
  "rx_search r [] = rx_at r []"
| "rx_search r (c # cs) =
     (case rx_at r (c # cs) of Some m \<Rightarrow> Some m | None \<Rightarrow> rx_search r cs)"

text \<open>A literal character and a literal text under the flag \<^verbatim>\<open>i\<close>, and exact ones.\<close>

definition chr_i :: "char \<Rightarrow> rx" where
  "chr_i c = Cls (\<lambda>x. lower_char x = lower_char c)"

definition str_i :: "string \<Rightarrow> rx" where
  "str_i s = foldr (\<lambda>c r. Seq (chr_i c) r) s Eps"

definition chr :: "char \<Rightarrow> rx" where
  "chr c = Cls (\<lambda>x. x = c)"

definition dot :: "char \<Rightarrow> bool" where
  "dot c \<longleftrightarrow> c \<notin> set [CHR 0x0A, CHR 0x0D]"

definition not_comma_dot :: "char \<Rightarrow> bool" where
  "not_comma_dot c \<longleftrightarrow> c \<notin> set '',.''"

section \<open>Story normalisation\<close>

definition trim :: "string \<Rightarrow> string" where
  "trim s = rev (dropWhile is_space (rev (dropWhile is_space s)))"

text \<open>\<^verbatim>\<open>.replace(/\r\n/g, '\n')\<close> and \<^verbatim>\<open>.replace(/\s+/g, ' ')\<close>.\<close>

fun replace_crlf :: "string \<Rightarrow> string" where
  "replace_crlf (c # d # cs) =
     (if c = CHR 0x0D \<and> d = CHR 0x0A then CHR 0x0A # replace_crlf cs
      else c # replace_crlf (d # cs))"
| "replace_crlf cs = cs"

fun collapse_ws :: "bool \<Rightarrow> string \<Rightarrow> string" where
  "collapse_ws ws [] = []"
| "collapse_ws ws (c # cs) =
     (if is_space c then (if ws then collapse_ws True cs else CHR '' '' # collapse_ws True cs)
      else c # collapse_ws False cs)"

text \<open>
  \<^verbatim>\<open>/^as a .+? i want .+? so that .+?$/i\<close>, matched at the start;
  \<^verbatim>\<open>/(?:as (?:an?|the)|for(?: the)?|from(?: the)?) ([^,.]+)/i\<close>;
  \<^verbatim>\<open>/(?:want|need|would like|should be able) to ([^,.]+)/i\<close>;
  \<^verbatim>\<open>/(?:so that|in order to|to be able to) ([^,.]+)/i\<close>;
  \<^verbatim>\<open>/[.!?]$/\<close>.
\<close>

definition story_format :: rx where
  "story_format =
     Seq (str_i ''as a '') (Seq (PlusL dot) (Seq (str_i '' i want '') (Seq (PlusL dot)
       (Seq (str_i '' so that '') (Seq (PlusL dot) Eos)))))"

definition role_rx :: rx where
  "role_rx =
     Seq (Alt (Seq (str_i ''as '') (Alt (Seq (chr_i CHR ''a'') (Opt (chr_i CHR ''n''))) (str_i ''the'')))
           (Alt (Seq (str_i ''for'') (Opt (str_i '' the'')))
                (Seq (str_i ''from'') (Opt (str_i '' the'')))))
       (Seq (chr_i CHR '' '') (Grp (PlusG not_comma_dot)))"

definition action_rx :: rx where
  "action_rx =
     Seq (Alt (str_i ''want'') (Alt (str_i ''need'') (Alt (str_i ''would like'')
            (str_i ''should be able''))))
       (Seq (str_i '' to '') (Grp (PlusG not_comma_dot)))"

definition value_rx :: rx where
  "value_rx =
     Seq (Alt (str_i ''so that'') (Alt (str_i ''in order to'') (str_i ''to be able to'')))
       (Seq (chr_i CHR '' '') (Grp (PlusG not_comma_dot)))"

definition punct_rx :: rx where
  "punct_rx = Seq (Cls (\<lambda>c. c \<in> set ''.!?'')) Eos"

text \<open>\<^verbatim>\<open>m ? m[1].trim() : dflt\<close> for the result of \<^verbatim>\<open>normalized.match(r)\<close>.\<close>

definition group1_or :: "rx \<Rightarrow> string \<Rightarrow> string \<Rightarrow> string" where
  "group1_or r s dflt =
     (case rx_search r s of
        None \<Rightarrow> dflt
      | Some (m, g) \<Rightarrow> trim (case g of Some t \<Rightarrow> t | None \<Rightarrow> []))"

text \<open>
  \<^verbatim>\<open>normalized.charAt(0).toUpperCase() + normalized.slice(1).toLowerCase()\<close>
\<close>

definition capitalize :: "string \<Rightarrow> string" where
  "capitalize s = (case s of [] \<Rightarrow> [] | c # cs \<Rightarrow> upper_char c # toLowerCase cs)"

text \<open>
  \<^verbatim>\<open>
  function normalizeStory(story) {
      let normalized = story.trim().replace(/\r\n/g, '\n').replace(/\s+/g, ' ');
      if (!/^as a .+? i want .+? so that .+?$/i.test(normalized)) {
          const roleMatch = normalized.match(...);
          const actionMatch = normalized.match(...);
          const valueMatch = normalized.match(...);
          const role = roleMatch ? roleMatch[1].trim() : 'user';
          const action = actionMatch ? actionMatch[1].trim() : normalized;
          const value = valueMatch ? valueMatch[1].trim() : 'achieve the desired outcome';
          normalized = `As a ${role}, I want to ${action} so that ${value}`;
      }
      normalized = normalized.charAt(0).toUpperCase() + normalized.slice(1).toLowerCase();
      if (!/[.!?]$/.test(normalized)) { normalized += '.'; }
      return normalized;
  }
  \<close>
\<close>

definition reconstruct :: "string \<Rightarrow> string" where
  "reconstruct normalized =
     (let role = group1_or role_rx normalized ''user'';
          action = group1_or action_rx normalized normalized;
          val = group1_or value_rx normalized ''achieve the desired outcome''
      in ''As a '' @ role @ '', I want to '' @ action @ '' so that '' @ val)"

definition normalizeStory :: "string \<Rightarrow> string" where
  "normalizeStory story =
     (let normalized0 = collapse_ws False (replace_crlf (trim story));
          normalized1 = (if rx_at story_format normalized0 = None then reconstruct normalized0
                         else normalized0);
          normalized2 = capitalize normalized1
      in if rx_search punct_rx normalized2 = None then normalized2 @ ''.'' else normalized2)"

section \<open>Semantic re-ranking\<close>

text \<open>
  The external parts. The chat call either throws or answers with a text
  (\<^verbatim>\<open>resp.choices?.[0]?.message?.content || ''\<close>); it is given by the number of the call
  and by the query and the excerpt that the prompt is built from. \<^verbatim>\<open>JSON.parse\<close> is a
  parameter as well: \<open>None\<close> when it throws, otherwise the two fields that the code
  reads, \<^verbatim>\<open>Number(parsed.llm_score) || 0\<close> and \<^verbatim>\<open>parsed.reason || ''\<close>.
\<close>

datatype chat_result = Throws | Content string

record llm_json =
  parsed_llm_score :: real
  parsed_reason :: string

type_synonym judge = "nat \<Rightarrow> string \<Rightarrow> string \<Rightarrow> chat_result"

type_synonym json_parser = "string \<Rightarrow> llm_json option"

record enhanced =
  candidate :: ranked
  evidence :: "string option"
  llm_score :: real
  llm_reason :: string
  hybrid_score_final :: real

text \<open>
  \<^verbatim>\<open>/\{[\s\S]*\}/\<close> and \<^verbatim>\<open>/([0](?:\.[0-9]+)?|1(?:\.0+)?)/\<close>, and \<^verbatim>\<open>parseFloat\<close> on the
  texts that the second one can match: digits, then possibly a point and digits.
\<close>

definition json_rx :: rx where
  "json_rx = Seq (chr CHR ''{'') (Seq (StarG (\<lambda>c. True)) (chr (CHR ''}'')))"

definition is_digit :: "char \<Rightarrow> bool" where
  "is_digit c \<longleftrightarrow> c \<in> set ''0123456789''"

definition num_rx :: rx where
  "num_rx =
     Grp (Alt (Seq (chr CHR ''0'') (Opt (Seq (chr CHR ''.'') (PlusG is_digit))))
              (Seq (chr CHR ''1'') (Opt (Seq (chr CHR ''.'') (PlusG (\<lambda>c. c = CHR ''0''))))))"

definition digit_value :: "char \<Rightarrow> real" where
  "digit_value c =
     (case map_of (zip ''0123456789'' [0, 1, 2, 3, 4, 5, 6, 7, 8, 9]) c of
        Some d \<Rightarrow> d | None \<Rightarrow> 0)"

definition parseFloat :: "string \<Rightarrow> real" where
  "parseFloat s =
     foldl (\<lambda>a c. 10 * a + digit_value c) 0 (takeWhile is_digit s)
     + foldr (\<lambda>c a. (digit_value c + a) / 10)
         (takeWhile is_digit (drop 1 (dropWhile is_digit s))) 0"

text \<open>
  The inner \<^verbatim>\<open>try\<close> of the loop: the score and the reason read from the answer
  (\<^verbatim>\<open>content\<close> in the source).
  \<^verbatim>\<open>
  let llmScore = 0; let reason = '';
  try {
      const jsonMatch = content.match(/\{[\s\S]*\}/);
      if (jsonMatch) {
          const parsed = JSON.parse(jsonMatch[0]);
          llmScore = Number(parsed.llm_score) || 0;
          reason = parsed.reason || '';
      } else {
          const numMatch = content.match(/([0](?:\.[0-9]+)?|1(?:\.0+)?)/);
          if (numMatch) llmScore = parseFloat(numMatch[1]);
          reason = content.substring(0, 300);
      }
  } catch (e) { llmScore = 0; reason = content.substring(0, 300); }
  \<close>
\<close>

definition parse_answer :: "json_parser \<Rightarrow> string \<Rightarrow> real \<times> string" where
  "parse_answer JSON_parse answer =
     (case rx_search json_rx answer of
        Some (jsonMatch, g) \<Rightarrow>
          (case JSON_parse jsonMatch of
             Some parsed \<Rightarrow> (parsed_llm_score parsed, parsed_reason parsed)
           | None \<Rightarrow> (0, take 300 answer))
      | None \<Rightarrow>
          ((case rx_search num_rx answer of
              Some (m, Some numMatch1) \<Rightarrow> parseFloat numMatch1
            | _ \<Rightarrow> 0),
           take 300 answer))"

text \<open>
  The body of the loop of \<^verbatim>\<open>enhanceWithLLM\<close> for one candidate:
  \<^verbatim>\<open>
  try {
      const snippet = (c.content || '').slice(0, 400);
      const resp = await mistral.chat(...);
      ...
      const vectorNorm = c.vector_score_norm ?? 0;
      const bm25Norm = c.bm25_score_norm ?? 0;
      const finalHybrid = (vectorNorm * config.vectorWeight) + (bm25Norm * config.bm25Weight)
                        + ((config.hybridWeight ?? 0) * llmScore);
      enhanced.push({ ...c, evidence: snippet, llm_score: llmScore, llm_reason: reason,
          hybrid_score_final: finalHybrid });
  } catch (err) {
      enhanced.push({ ...c, llm_score: 0, llm_reason: 'LLM failed',
          hybrid_score_final: c.hybrid_score });
  }
  \<close>
\<close>

definition enhance_one ::
  "json_parser \<Rightarrow> judge \<Rightarrow> RAGConfig \<Rightarrow> string \<Rightarrow> nat \<Rightarrow> ranked \<Rightarrow> enhanced" where
  "enhance_one JSON_parse chat config query i c =
     (let snippet = take 400 (content c) in
      case chat i query snippet of
        Throws \<Rightarrow>
          \<lparr> candidate = c, evidence = None, llm_score = 0, llm_reason = ''LLM failed'',
            hybrid_score_final = hybrid_score c \<rparr>
      | Content answer \<Rightarrow>
          (case parse_answer JSON_parse answer of (llmScore, reason) \<Rightarrow>
             let vectorNorm = vector_score_norm c;
                 bm25Norm = bm25_score_norm c;
                 finalHybrid = vectorNorm * vectorWeight config + bm25Norm * bm25Weight config
                             + hybridWeight config * llmScore
             in \<lparr> candidate = c, evidence = Some snippet, llm_score = llmScore,
                  llm_reason = reason, hybrid_score_final = finalHybrid \<rparr>))"

fun enhance_loop ::
  "json_parser \<Rightarrow> judge \<Rightarrow> RAGConfig \<Rightarrow> string \<Rightarrow> nat \<Rightarrow> ranked list \<Rightarrow> enhanced list" where
  "enhance_loop JSON_parse chat config query i [] = []"
| "enhance_loop JSON_parse chat config query i (c # cs) =
     enhance_one JSON_parse chat config query i c
       # enhance_loop JSON_parse chat config query (Suc i) cs"

text \<open>
  \<^verbatim>\<open>
  enhanced.sort((a, b) => (b.hybrid_score_final || 0) - (a.hybrid_score_final || 0));
  return enhanced;
  \<close>
\<close>

definition enhanceWithLLM ::
  "json_parser \<Rightarrow> judge \<Rightarrow> ranked list \<Rightarrow> string \<Rightarrow> RAGConfig \<Rightarrow> enhanced list" where
  "enhanceWithLLM JSON_parse chat candidates query config =
     sort_desc hybrid_score_final (enhance_loop JSON_parse chat config query 0 candidates)"

section \<open>The route\<close>

datatype error_code = MISSING_STORY | INTERNAL_ERROR

text \<open>
  The part of \<^verbatim>\<open>POST\<close> that decides \<^verbatim>\<open>ranked_related_stories\<close> and \<^verbatim>\<open>errors\<close>. The
  embedding provider and the database may throw (\<open>None\<close>), which the handler of the
  route turns into \<^verbatim>\<open>INTERNAL_ERROR\<close>. The quality score and the refinement catch their
  own failures and do not touch the ranking.
  \<^verbatim>\<open>
  ranked_related_stories: enhanced.slice(0, config.topK || DEFAULT_CONFIG.topK)
  \<close>
\<close>

definition POST ::
  "(string \<Rightarrow> real list option) \<Rightarrow> document list option \<Rightarrow> json_parser \<Rightarrow> judge
     \<Rightarrow> string \<Rightarrow> request_config option \<Rightarrow> error_code + enhanced list" where
  "POST embedQuery collection JSON_parse chat story body_config =
     (if story = [] then Inl MISSING_STORY
      else
        let config = nullish body_config DEFAULT_CONFIG;
            normalizedConfig = POST_normalizedConfig body_config;
            normalizedStory = normalizeStory story
        in case embedQuery normalizedStory of
             None \<Rightarrow> Inl INTERNAL_ERROR
           | Some storyEmbedding \<Rightarrow>
               (case collection of
                  None \<Rightarrow> Inl INTERNAL_ERROR
                | Some documents \<Rightarrow>
                    let relatedStories =
                          performHybridSearch App documents storyEmbedding normalizedStory
                            normalizedConfig;
                        enhanced =
                          enhanceWithLLM JSON_parse chat relatedStories normalizedStory
                            normalizedConfig
                    in Inr (slice0 enhanced
                             (Some (case rc_topK config of
                                      None \<Rightarrow> 6
                                    | Some k \<Rightarrow> if k = 0 then 6 else k)))))"

section \<open>Notions used in the statements\<close>

text \<open>The identifiers of a stream of scored documents, in its order.\<close>

abbreviation ids :: "(document \<times> real) list \<Rightarrow> string list" where
  "ids ds \<equiv> map (\<lambda>d. d_id (fst d)) ds"

text \<open>
  The order in which the search lists the documents of a collection before it sorts
  them: first the documents with content and an embedding, then those with content and no
  embedding, each group in the order of the collection.
\<close>

definition merge_order :: "document list \<Rightarrow> string list" where
  "merge_order documents =
     map d_id (filter (\<lambda>d. d_content d \<noteq> [] \<and> embedding d \<noteq> None) documents
               @ filter (\<lambda>d. d_content d \<noteq> [] \<and> embedding d = None) documents)"

text \<open>
  The elements of a list whose identifier was not seen before, the recursive reading of
  the filter on \<^verbatim>\<open>findIndex\<close>.
\<close>

fun unseen :: "string set \<Rightarrow> ranked list \<Rightarrow> ranked list" where
  "unseen S [] = []"
| "unseen S (x # xs) = (if r_id x \<in> S then unseen S xs else x # unseen (insert (r_id x) S) xs)"

text \<open>
  The lexical score as the specification words it: the token sets of the lower-cased
  texts are their maximal runs of characters that are not white space, the score is 0
  when either set is empty and the Jaccard index of the two sets otherwise.
\<close>

fun tokens_from :: "string \<Rightarrow> string \<Rightarrow> string list" where
  "tokens_from cur [] = (if cur = [] then [] else [rev cur])"
| "tokens_from cur (c # cs) =
     (if is_space c then (if cur = [] then tokens_from [] cs else rev cur # tokens_from [] cs)
      else tokens_from (c # cur) cs)"

definition tokens :: "string \<Rightarrow> string set" where
  "tokens t = set (tokens_from [] (toLowerCase t))"

definition spec_lexical :: "string \<Rightarrow> string \<Rightarrow> real" where
  "spec_lexical q d =
     (if tokens q = {} \<or> tokens d = {} then 0
      else real (card (tokens q \<inter> tokens d)) / real (card (tokens q \<union> tokens d)))"

text \<open>A text that is not empty and neither starts nor ends with white space.\<close>

definition trimmed :: "string \<Rightarrow> bool" where
  "trimmed t \<longleftrightarrow> t \<noteq> [] \<and> \<not> is_space (hd t) \<and> \<not> is_space (last t)"



section \<open>Example data\<close>


definition even_config :: RAGConfig where
  "even_config = \<lparr> vectorWeight = 1 / 2, bm25Weight = 1 / 2, hybridWeight = 0,
     topK = Some 2 \<rparr>"

definition cand :: "string \<Rightarrow> real \<Rightarrow> real \<Rightarrow> ranked" where
  "cand i v b = \<lparr> r_id = i, content = ''text'', key = None, description = None,
     metadata = [], vector_score = v, bm25_score = b, vector_score_norm = 0,
     bm25_score_norm = 0, hybrid_score = 0 \<rparr>"

definition docA :: document where
  "docA = \<lparr> d_id = ''a'', d_content = ''login page'', storyId = None, d_description = None,
     d_metadata = [], embedding = None \<rparr>"

definition docB :: document where
  "docB = \<lparr> d_id = ''b'', d_content = ''login page'', storyId = None, d_description = None,
     d_metadata = [], embedding = Some [0, 1] \<rparr>"

definition docC :: document where
  "docC = \<lparr> d_id = ''c'', d_content = ''logout'', storyId = Some ''US-3'',
     d_description = None, d_metadata = [], embedding = Some [1, 0] \<rparr>"








section \<open>Properties\<close>

subsection \<open>Batch minimum and maximum\<close>








subsection \<open>Scale invariance of the normalisation\<close>



subsection \<open>The empty collection\<close>

lemma sort_desc_single: "sort_desc f [x] = [x]"
  by (simp add: sort_desc_def)

text \<open>
  C1, as the code has it. For every query against an empty collection the search reports
  no error and returns a list of exactly one entry, the placeholder story with identifier
  1 and all five scores 0, on both routes; it does not return the empty list. The App
  route then answers without error, and unless a negative \<^verbatim>\<open>topK\<close> was sent its ranking is
  that placeholder.
\<close>

theorem empty_collection_placeholder:
  "performHybridSearch rt [] emb text config = [placeholder]
   \<and> (story \<noteq> [] \<and> embedQuery (normalizeStory story) \<noteq> None
      \<and> (\<forall>k. rc_topK (nullish body_config DEFAULT_CONFIG) = Some k \<longrightarrow> 0 \<le> k)
      \<longrightarrow> (\<exists>out. POST embedQuery (Some []) JSON_parse chat story body_config = Inr out
              \<and> map candidate out = [placeholder]))"
proof -
  have "slice0 [x] (Some (case k of None \<Rightarrow> 6 | Some k \<Rightarrow> if k = 0 then 6 else k)) = [x]"
    if "\<forall>j. k = Some j \<longrightarrow> 0 \<le> j" for x :: enhanced and k
    using that by (cases k) (auto simp: slice0_def nat_eq_iff take_Cons')
  then show ?thesis
    by (auto simp: performHybridSearch_def POST_def Let_def enhanceWithLLM_def
        sort_desc_single enhance_one_def split: chat_result.splits prod.splits)
qed

theorem empty_collection_placeholder_witness:
  "''Login page'' \<noteq> [] \<and> (\<lambda>s. Some [1, 0]) (normalizeStory ''Login page'') \<noteq> None
   \<and> rc_topK (nullish None DEFAULT_CONFIG) = Some 6
   \<and> (\<exists>out. POST (\<lambda>s. Some [1, 0]) (Some []) (\<lambda>s. None) (\<lambda>i q e. Throws) ''Login page'' None
              = Inr out \<and> map candidate out = [placeholder])"
  using empty_collection_placeholder
    [of App "[]" "[]" even_config "''Login page''" "\<lambda>s. Some [1, 0]" None
        "\<lambda>s. None" "\<lambda>i q e. Throws"]
  by (simp add: nullish_def DEFAULT_CONFIG_def)

theorem empty_collection_counterexample:
  "performHybridSearch App [] [1, 0] ''as a user i want login'' even_config \<noteq> []
   \<and> performHybridSearch Pages [] [1, 0] ''as a user i want login'' even_config \<noteq> []"
  by (simp add: performHybridSearch_def)

subsection \<open>Weights\<close>




subsection \<open>The merge\<close>

lemma set_fold_Set_add: "set (fold Set_add xs s) = set xs \<union> set s"
  by (induction xs arbitrary: s) (auto simp: Set_add_def)

lemma distinct_fold_Set_add: "distinct s \<Longrightarrow> distinct (fold Set_add xs s)"
  by (induction xs arbitrary: s) (auto simp: Set_add_def)

lemma set_new_Set [simp]: "set (new_Set xs) = set xs"
  by (simp add: new_Set_def set_fold_Set_add)

lemma distinct_new_Set [simp]: "distinct (new_Set xs)"
  by (simp add: new_Set_def distinct_fold_Set_add)

lemma length_new_Set: "length (new_Set xs) = card (set xs)"
  using distinct_card [OF distinct_new_Set, of xs] by simp

lemma fold_Set_add_append: "fold Set_add (xs @ ys) s = fold Set_add ys (fold Set_add xs s)"
  by simp

lemma fold_Set_add_distinct:
  "distinct (s @ xs) \<Longrightarrow> fold Set_add xs s = s @ xs"
  by (induction xs arbitrary: s) (auto simp: Set_add_def)

lemma keys_addToMap: "map fst (addToMap rt f d al) = Set_add (d_id (fst d)) (map fst al)"
  by (simp add: addToMap_def Let_def update_keys Set_add_def)

lemma keys_fold_addToMap:
  "map fst (fold (addToMap rt f) ds al) = fold Set_add (ids ds) (map fst al)"
  by (induction ds arbitrary: al) (simp_all add: keys_addToMap)

lemma keys_mergedMap:
  "map fst (mergedMap rt knn txs) = new_Set (ids knn @ ids txs)"
  by (simp add: mergedMap_def keys_fold_addToMap new_Set_def)

lemma map_of_addToMap:
  "map_of (addToMap rt f d al) =
     (map_of al)(d_id (fst d) \<mapsto>
        set_score f (snd d)
          (case map_of al (d_id (fst d)) of Some e \<Rightarrow> e | None \<Rightarrow> new_entry rt (fst d)))"
  by (simp add: addToMap_def Let_def update_conv')

lemma r_id_set_score [simp]: "r_id (set_score f v e) = r_id e"
  by (cases f) (simp_all add: set_score_def)

lemma r_id_new_entry [simp]: "r_id (new_entry rt d) = d_id d"
  by (simp add: new_entry_def)

lemma scores_new_entry [simp]:
  "vector_score (new_entry rt d) = 0" "bm25_score (new_entry rt d) = 0"
  by (simp_all add: new_entry_def)

lemma set_score_fields [simp]:
  "vector_score (set_score Vector_score v e) = v"
  "bm25_score (set_score Vector_score v e) = bm25_score e"
  "bm25_score (set_score Bm25_score v e) = v"
  "vector_score (set_score Bm25_score v e) = vector_score e"
  by (simp_all add: set_score_def)

text \<open>Invariant: every entry is stored under its own identifier.\<close>

lemma keyed_fold_addToMap:
  assumes "\<forall>k e. map_of al k = Some e \<longrightarrow> r_id e = k"
  shows "\<forall>k e. map_of (fold (addToMap rt f) ds al) k = Some e \<longrightarrow> r_id e = k"
  using assms
proof (induction ds arbitrary: al)
  case Nil then show ?case by simp
next
  case (Cons d ds)
  have "\<forall>k e. map_of (addToMap rt f d al) k = Some e \<longrightarrow> r_id e = k"
    using Cons.prems by (auto simp: map_of_addToMap split: option.splits if_splits)
  from Cons.IH [OF this] show ?case by simp
qed

lemma untouched_fold_addToMap:
  "k \<notin> set (ids ds) \<Longrightarrow> map_of (fold (addToMap rt f) ds al) k = map_of al k"
  by (induction ds arbitrary: al) (auto simp: map_of_addToMap)

lemma bm25_zero_fold_vector:
  assumes "\<forall>k e. map_of al k = Some e \<longrightarrow> bm25_score e = 0"
  shows "\<forall>k e. map_of (fold (addToMap rt Vector_score) ds al) k = Some e \<longrightarrow> bm25_score e = 0"
  using assms
proof (induction ds arbitrary: al)
  case Nil then show ?case by simp
next
  case (Cons d ds)
  have "\<forall>k e. map_of (addToMap rt Vector_score d al) k = Some e \<longrightarrow> bm25_score e = 0"
    using Cons.prems by (auto simp: map_of_addToMap split: option.splits if_splits)
  from Cons.IH [OF this] show ?case by simp
qed

lemma vector_zero_fold_vector:
  assumes "\<forall>k e. map_of al k = Some e \<longrightarrow> k \<notin> S \<longrightarrow> vector_score e = 0"
  shows "\<forall>k e. map_of (fold (addToMap rt Vector_score) ds al) k = Some e
           \<longrightarrow> k \<notin> S \<union> set (ids ds) \<longrightarrow> vector_score e = 0"
  using assms
proof (induction ds arbitrary: al S)
  case Nil then show ?case by simp
next
  case (Cons d ds)
  have "\<forall>k e. map_of (addToMap rt Vector_score d al) k = Some e
          \<longrightarrow> k \<notin> insert (d_id (fst d)) S \<longrightarrow> vector_score e = 0"
    using Cons.prems by (auto simp: map_of_addToMap split: option.splits if_splits)
  from Cons.IH [OF this] show ?case by simp
qed

lemma vector_zero_fold_bm25:
  assumes "\<forall>k e. map_of al k = Some e \<longrightarrow> k \<notin> S \<longrightarrow> vector_score e = 0"
  shows "\<forall>k e. map_of (fold (addToMap rt Bm25_score) ds al) k = Some e
           \<longrightarrow> k \<notin> S \<longrightarrow> vector_score e = 0"
  using assms
proof (induction ds arbitrary: al)
  case Nil then show ?case by simp
next
  case (Cons d ds)
  have "\<forall>k e. map_of (addToMap rt Bm25_score d al) k = Some e
          \<longrightarrow> k \<notin> S \<longrightarrow> vector_score e = 0"
    using Cons.prems by (auto simp: map_of_addToMap split: option.splits if_splits)
  from Cons.IH [OF this] show ?case by simp
qed

lemma bm25_zero_fold_bm25:
  assumes "\<forall>k e. map_of al k = Some e \<longrightarrow> k \<notin> S \<longrightarrow> bm25_score e = 0"
  shows "\<forall>k e. map_of (fold (addToMap rt Bm25_score) ds al) k = Some e
           \<longrightarrow> k \<notin> S \<union> set (ids ds) \<longrightarrow> bm25_score e = 0"
  using assms
proof (induction ds arbitrary: al S)
  case Nil then show ?case by simp
next
  case (Cons d ds)
  have "\<forall>k e. map_of (addToMap rt Bm25_score d al) k = Some e
          \<longrightarrow> k \<notin> insert (d_id (fst d)) S \<longrightarrow> bm25_score e = 0"
    using Cons.prems by (auto simp: map_of_addToMap split: option.splits if_splits)
  from Cons.IH [OF this] show ?case by simp
qed


lemma vector_kept_fold_bm25:
  assumes "map_of al k = Some e"
  shows "\<exists>e'. map_of (fold (addToMap rt Bm25_score) ds al) k = Some e'
            \<and> vector_score e' = vector_score e"
  using assms
proof (induction ds arbitrary: al e)
  case Nil then show ?case by simp
next
  case (Cons d ds)
  have "\<exists>e1. map_of (addToMap rt Bm25_score d al) k = Some e1
            \<and> vector_score e1 = vector_score e"
    using Cons.prems by (auto simp: map_of_addToMap)
  then obtain e1 where "map_of (addToMap rt Bm25_score d al) k = Some e1"
    and "vector_score e1 = vector_score e" by blast
  with Cons.IH [of "addToMap rt Bm25_score d al" e1] show ?case by simp
qed

lemma score_carried_fold:
  assumes "distinct (ids ds)" and "(d, s) \<in> set ds"
  shows "\<exists>e. map_of (fold (addToMap rt f) ds al) (d_id d) = Some e
           \<and> (case f of Vector_score \<Rightarrow> vector_score e | Bm25_score \<Rightarrow> bm25_score e) = s"
  using assms
proof (induction ds arbitrary: al)
  case Nil then show ?case by simp
next
  case (Cons x ds)
  show ?case
  proof (cases "x = (d, s)")
    case True
    with Cons.prems have "d_id d \<notin> set (ids ds)" by auto
    then have "map_of (fold (addToMap rt f) ds (addToMap rt f x al)) (d_id d)
             = map_of (addToMap rt f x al) (d_id d)"
      by (rule untouched_fold_addToMap)
    with True show ?thesis
      by (cases f) (simp_all add: map_of_addToMap)
  next
    case False
    with Cons.prems have "(d, s) \<in> set ds" "distinct (ids ds)" by auto
    from Cons.IH [OF this(2) this(1)] show ?thesis by simp
  qed
qed

lemma entries_mergedMap:
  assumes "(k, e) \<in> set (mergedMap rt knn txs)"
  shows "map_of (mergedMap rt knn txs) k = Some e"
proof -
  have "distinct (map fst (mergedMap rt knn txs))"
    by (simp add: keys_mergedMap)
  with assms show ?thesis by simp
qed

lemma keyed_mergedMap:
  assumes "(k, e) \<in> set (mergedMap rt knn txs)"
  shows "r_id e = k"
proof -
  have "\<forall>k e. map_of (mergedMap rt knn txs) k = Some e \<longrightarrow> r_id e = k"
    unfolding mergedMap_def
    by (intro keyed_fold_addToMap) simp
  with entries_mergedMap [OF assms] show ?thesis by blast
qed

lemma ids_merged: "map r_id (merged rt knn txs) = new_Set (ids knn @ ids txs)"
proof -
  have "map r_id (merged rt knn txs) = map fst (mergedMap rt knn txs)"
    unfolding merged_def map_map
    by (rule map_cong [OF refl]) (auto simp: keyed_mergedMap)
  then show ?thesis by (simp add: keys_mergedMap)
qed

lemma merged_entry:
  assumes "r \<in> set (merged rt knn txs)"
  shows "map_of (mergedMap rt knn txs) (r_id r) = Some r"
proof -
  from assms obtain k where "(k, r) \<in> set (mergedMap rt knn txs)"
    by (auto simp: merged_def)
  with keyed_mergedMap [OF this] entries_mergedMap [OF this] show ?thesis by simp
qed

lemma merged_member:
  assumes "map_of (mergedMap rt knn txs) k = Some e"
  shows "e \<in> set (merged rt knn txs) \<and> r_id e = k"
  using map_of_SomeD [OF assms] keyed_mergedMap [OF map_of_SomeD [OF assms]]
  by (force simp: merged_def)

text \<open>
  C8. For every pair of score streams the merge produces exactly one candidate for each
  document identifier that occurs in either stream, so the number of candidates is the
  number of distinct identifiers; a candidate whose document is missing from the vector
  stream has the raw vector score 0, and one missing from the lexical stream the raw
  lexical score 0. The score of a stream that lists each document once is carried to its
  candidate.
\<close>

theorem merge_lossless:
  "distinct (map r_id (merged rt knn txs))
   \<and> set (map r_id (merged rt knn txs)) = set (ids knn) \<union> set (ids txs)
   \<and> length (merged rt knn txs) = card (set (ids knn) \<union> set (ids txs))
   \<and> (\<forall>r \<in> set (merged rt knn txs). r_id r \<notin> set (ids knn) \<longrightarrow> vector_score r = 0)
   \<and> (\<forall>r \<in> set (merged rt knn txs). r_id r \<notin> set (ids txs) \<longrightarrow> bm25_score r = 0)
   \<and> (distinct (ids knn) \<longrightarrow>
        (\<forall>(d, s) \<in> set knn. \<exists>r \<in> set (merged rt knn txs). r_id r = d_id d \<and> vector_score r = s))
   \<and> (distinct (ids txs) \<longrightarrow>
        (\<forall>(d, s) \<in> set txs. \<exists>r \<in> set (merged rt knn txs). r_id r = d_id d \<and> bm25_score r = s))"
proof (intro conjI ballI impI)
  show "distinct (map r_id (merged rt knn txs))"
    by (simp add: ids_merged)
  show "set (map r_id (merged rt knn txs)) = set (ids knn) \<union> set (ids txs)"
    by (simp only: ids_merged set_new_Set set_append)
  have "length (merged rt knn txs) = length (map r_id (merged rt knn txs))" by simp
  also have "\<dots> = card (set (ids knn @ ids txs))"
    by (simp only: ids_merged length_new_Set)
  finally show "length (merged rt knn txs) = card (set (ids knn) \<union> set (ids txs))"
    by simp
next
  fix r assume r: "r \<in> set (merged rt knn txs)" and no: "r_id r \<notin> set (ids knn)"
  have "\<forall>k e. map_of (fold (addToMap rt Vector_score) knn []) k = Some e
          \<longrightarrow> k \<notin> {} \<union> set (ids knn) \<longrightarrow> vector_score e = 0"
    by (intro vector_zero_fold_vector) simp
  then have "\<forall>k e. map_of (mergedMap rt knn txs) k = Some e
          \<longrightarrow> k \<notin> set (ids knn) \<longrightarrow> vector_score e = 0"
    unfolding mergedMap_def by (intro vector_zero_fold_bm25) simp
  with merged_entry [OF r] no show "vector_score r = 0" by blast
next
  fix r assume r: "r \<in> set (merged rt knn txs)" and no: "r_id r \<notin> set (ids txs)"
  have "\<forall>k e. map_of (fold (addToMap rt Vector_score) knn []) k = Some e \<longrightarrow> bm25_score e = 0"
    by (intro bm25_zero_fold_vector) simp
  then have "\<forall>k e. map_of (mergedMap rt knn txs) k = Some e
          \<longrightarrow> k \<notin> {} \<union> set (ids txs) \<longrightarrow> bm25_score e = 0"
    unfolding mergedMap_def by (intro bm25_zero_fold_bm25) simp
  with merged_entry [OF r] no show "bm25_score r = 0" by blast
next
  fix x assume dk: "distinct (ids knn)" and x: "x \<in> set knn"
  obtain d s where ds: "x = (d, s)" by (cases x)
  with x have x': "(d, s) \<in> set knn" by simp
  from score_carried_fold [OF dk x', of rt Vector_score "[]"]
  obtain e where e1: "map_of (fold (addToMap rt Vector_score) knn []) (d_id d) = Some e"
    and e2: "vector_score e = s" by auto
  from vector_kept_fold_bm25 [OF e1, of rt txs] e2
  obtain e' where e3: "map_of (mergedMap rt knn txs) (d_id d) = Some e'"
    and e4: "vector_score e' = s"
    by (auto simp: mergedMap_def)
  from e4 merged_member [OF e3]
  show "case x of (d, s) \<Rightarrow> \<exists>r \<in> set (merged rt knn txs). r_id r = d_id d \<and> vector_score r = s"
    unfolding ds by auto
next
  fix x assume dt: "distinct (ids txs)" and x: "x \<in> set txs"
  obtain d s where ds: "x = (d, s)" by (cases x)
  with x have x': "(d, s) \<in> set txs" by simp
  from score_carried_fold [OF dt x', of rt Bm25_score
      "fold (addToMap rt Vector_score) knn []"]
  obtain e where e1: "map_of (mergedMap rt knn txs) (d_id d) = Some e"
    and e2: "bm25_score e = s"
    by (auto simp: mergedMap_def)
  from e2 merged_member [OF e1]
  show "case x of (d, s) \<Rightarrow> \<exists>r \<in> set (merged rt knn txs). r_id r = d_id d \<and> bm25_score r = s"
    unfolding ds by auto
qed

theorem merge_lossless_witness:
  "distinct (ids [(docB, 3 / 4), (docC, 1 / 4)]) \<and> distinct (ids [(docA, 1 / 2), (docB, 1 / 3)])
   \<and> map (\<lambda>r. (r_id r, vector_score r, bm25_score r))
        (merged App [(docB, 3 / 4), (docC, 1 / 4)] [(docA, 1 / 2), (docB, 1 / 3)])
      = [(''b'', 3 / 4, 1 / 3), (''c'', 1 / 4, 0), (''a'', 0, 1 / 2)]
   \<and> card (set (ids [(docB, 3 / 4), (docC, 1 / 4)]) \<union> set (ids [(docA, 1 / 2), (docB, 1 / 3)]))
      = 3"
proof -
  have ev: "map (\<lambda>r. (r_id r, vector_score r, bm25_score r))
        (merged App [(docB, 3 / 4), (docC, 1 / 4)] [(docA, 1 / 2), (docB, 1 / 3)])
      = [(''b'', 3 / 4, 1 / 3), (''c'', 1 / 4, 0), (''a'', 0, 1 / 2)]"
    by (simp add: merged_def mergedMap_def addToMap_def set_score_def docA_def docB_def
        docC_def new_entry_def Let_def)
  have "length (merged App [(docB, 3 / 4), (docC, 1 / 4)] [(docA, 1 / 2), (docB, 1 / 3)]) = 3"
    using arg_cong [OF ev, of length] by simp
  with merge_lossless [of App "[(docB, 3 / 4), (docC, 1 / 4)]" "[(docA, 1 / 2), (docB, 1 / 3)]"]
  have "card (set (ids [(docB, 3 / 4), (docC, 1 / 4)])
           \<union> set (ids [(docA, 1 / 2), (docB, 1 / 3)])) = 3"
    by simp
  with ev show ?thesis by (simp add: docA_def docB_def docC_def)
qed

subsection \<open>Fusion and ranking\<close>

lemma findIndex_append_here:
  "findIndex p (pre @ y # ys) = Some (length pre) \<longleftrightarrow> (\<forall>x \<in> set pre. \<not> p x) \<and> p y"
  by (induction pre) auto

lemma first_by_id_aux:
  "map snd (filter (\<lambda>(index, story). findIndex (\<lambda>s. r_id s = r_id story) (pre @ ys) = Some index)
              (enumerate (length pre) ys))
   = unseen (r_id ` set pre) ys"
proof (induction ys arbitrary: pre)
  case Nil then show ?case by simp
next
  case (Cons y ys)
  have here: "findIndex (\<lambda>s. r_id s = r_id y) (pre @ y # ys) = Some (length pre)
      \<longleftrightarrow> r_id y \<notin> r_id ` set pre"
    by (auto simp: findIndex_append_here image_iff)
  from Cons.IH [of "pre @ [y]"] here show ?case
    by (auto simp: insert_absorb)
qed

lemma first_by_id_unseen: "first_by_id xs = unseen {} xs"
  using first_by_id_aux [of "[]" xs] by (simp add: first_by_id_def)

lemma subseq_unseen: "subseq (unseen S xs) xs"
  by (induction xs arbitrary: S) auto

lemma ids_unseen: "r_id ` set (unseen S xs) = r_id ` set xs - S"
  by (induction xs arbitrary: S) auto

lemma distinct_unseen: "distinct (map r_id (unseen S xs))"
  by (induction xs arbitrary: S) (auto simp: ids_unseen)

lemma unseen_first:
  "r \<in> set (unseen S xs) \<Longrightarrow> find (\<lambda>s. r_id s = r_id r) xs = Some r"
proof (induction xs arbitrary: S)
  case Nil then show ?case by simp
next
  case (Cons x xs)
  have notS: "r_id r \<notin> S" using Cons.prems ids_unseen [of S "x # xs"] by blast
  show ?case
  proof (cases "r_id x \<in> S")
    case True
    with Cons.prems Cons.IH [of S] notS show ?thesis by auto
  next
    case False
    show ?thesis
    proof (cases "r = x")
      case True then show ?thesis by simp
    next
      case ne: False
      with Cons.prems False have in': "r \<in> set (unseen (insert (r_id x) S) xs)" by simp
      then have "r_id r \<noteq> r_id x" using ids_unseen [of "insert (r_id x) S" xs] by blast
      with Cons.IH [OF in'] show ?thesis by simp
    qed
  qed
qed

lemma unseen_id: "distinct (map r_id xs) \<Longrightarrow> r_id ` set xs \<inter> S = {} \<Longrightarrow> unseen S xs = xs"
  by (induction xs arbitrary: S) auto

lemma sorted_sort_desc: "sorted_wrt (\<lambda>a b. f a \<ge> f b) (sort_desc f xs)"
proof -
  have "sorted (map (\<lambda>x. - f x) (sort_key (\<lambda>x. - f x) xs))" by (rule sorted_sort_key)
  then show ?thesis by (simp add: sort_desc_def sorted_map)
qed

lemma sorted_wrt_subseq: "subseq ys xs \<Longrightarrow> sorted_wrt R xs \<Longrightarrow> sorted_wrt R ys"
proof (induction rule: list_emb.induct)
  case (list_emb_Cons2 x y xs ys)
  then show ?case by (auto elim!: list_emb_set)
qed auto

lemma slice0_prefix: "prefix (slice0 xs e) xs"
  by (auto simp: slice0_def take_is_prefix split: option.splits)

lemma slice0_length: "0 \<le> k \<Longrightarrow> length (slice0 xs (Some k)) \<le> nat k"
  by (simp add: slice0_def)

lemma prefix_subseq: "prefix ys xs \<Longrightarrow> subseq ys xs"
  by (auto simp: prefix_def)

lemma hybrid_normalizedResults:
  "r \<in> set (normalizedResults config m ms) \<Longrightarrow>
     hybrid_score r = vector_score_norm r * vectorWeight config
                    + bm25_score_norm r * bm25Weight config"
  by (auto simp: normalizedResults_def normalize_result_def Let_def)

text \<open>
  C5. For every merged batch and configuration, the fusion stage gives each candidate
  the score \<open>vectorWeight \<cdot> vector_score_norm + bm25Weight \<cdot> bm25_score_norm\<close>, one scored
  candidate for each merged one; its output is sorted by descending score, holds no
  identifier twice, every candidate in it is the first one of its identifier in the
  sorted list, no identifier is lost before the cut, and the output is the start of the
  de-duplicated list with at most \<open>topK\<close> candidates (for a \<open>topK\<close> that is not negative).
\<close>

theorem fusion_ranking:
  fixes config m ms
  defines "scored \<equiv> normalizedResults config m ms"
  defines "out \<equiv> slice0 (deduplicated scored) (topK config)"
  shows "(\<forall>r \<in> set scored.
            hybrid_score r = vector_score_norm r * vectorWeight config
                           + bm25_score_norm r * bm25Weight config)
    \<and> map r_id scored = map r_id (m # ms)
    \<and> sorted_wrt (\<lambda>a b. hybrid_score a \<ge> hybrid_score b) out
    \<and> distinct (map r_id out)
    \<and> (\<forall>r \<in> set out. find (\<lambda>s. r_id s = r_id r) (sort_desc hybrid_score scored) = Some r)
    \<and> prefix out (deduplicated scored)
    \<and> r_id ` set (deduplicated scored) = r_id ` set scored
    \<and> (\<forall>k. topK config = Some k \<and> 0 \<le> k \<longrightarrow> length out \<le> nat k)"
proof (intro conjI ballI allI impI)
  let ?sorted = "sort_desc hybrid_score scored"
  have dd: "deduplicated scored = unseen {} ?sorted"
    by (simp add: deduplicated_def first_by_id_unseen)
  have pre: "prefix out (deduplicated scored)"
    unfolding out_def by (rule slice0_prefix)
  then show "prefix out (deduplicated scored)" .
  have sub: "subseq out ?sorted"
    using prefix_subseq [OF pre] subseq_unseen [of "{}" ?sorted] unfolding dd
    by (rule subseq_order.order_trans)
  show "sorted_wrt (\<lambda>a b. hybrid_score a \<ge> hybrid_score b) out"
    using sub sorted_sort_desc by (rule sorted_wrt_subseq)
  have "distinct (map r_id (deduplicated scored))"
    unfolding dd by (rule distinct_unseen)
  moreover from pre obtain zs where "deduplicated scored = out @ zs"
    by (auto simp: prefix_def)
  ultimately show "distinct (map r_id out)" by simp
  show "r_id ` set (deduplicated scored) = r_id ` set scored"
    unfolding dd by (simp add: ids_unseen sort_desc_def)
  show "map r_id scored = map r_id (m # ms)"
    by (simp add: scored_def normalizedResults_def normalize_result_def Let_def)
next
  fix r assume "r \<in> set scored"
  then show "hybrid_score r = vector_score_norm r * vectorWeight config
                           + bm25_score_norm r * bm25Weight config"
    unfolding scored_def by (rule hybrid_normalizedResults)
next
  fix r assume "r \<in> set out"
  moreover have "set out \<subseteq> set (deduplicated scored)"
    unfolding out_def using set_mono_prefix [OF slice0_prefix] .
  ultimately have "r \<in> set (unseen {} (sort_desc hybrid_score scored))"
    by (auto simp: deduplicated_def first_by_id_unseen)
  then show "find (\<lambda>s. r_id s = r_id r) (sort_desc hybrid_score scored) = Some r"
    by (rule unseen_first)
next
  fix k assume "topK config = Some k \<and> 0 \<le> k"
  then show "length out \<le> nat k"
    unfolding out_def using slice0_length [of k] by simp
qed

theorem fusion_ranking_witness:
  "topK even_config = Some 2 \<and> (0::int) \<le> 2
   \<and> map (\<lambda>r. (r_id r, hybrid_score r))
        (slice0 (deduplicated (normalizedResults even_config (cand ''a'' 0 0)
           [cand ''b'' 1 1, cand ''b'' (1 / 2) 0, cand ''c'' (1 / 2) 1])) (topK even_config))
      = [(''b'', 1), (''c'', 3 / 4)]
   \<and> map (\<lambda>r. (r_id r, hybrid_score r))
        (deduplicated (normalizedResults even_config (cand ''a'' 0 0)
           [cand ''b'' 1 1, cand ''b'' (1 / 2) 0, cand ''c'' (1 / 2) 1]))
      = [(''b'', 1), (''c'', 3 / 4), (''a'', 0)]"
proof -
  have ev: "map (\<lambda>r. (r_id r, hybrid_score r))
        (deduplicated (normalizedResults even_config (cand ''a'' 0 0)
           [cand ''b'' 1 1, cand ''b'' (1 / 2) 0, cand ''c'' (1 / 2) 1]))
      = [(''b'', 1), (''c'', 3 / 4), (''a'', 0)]"
    by (simp add: normalizedResults_def normalize_result_def Let_def
      Math_min_def Math_max_def normalizeScore_def deduplicated_def first_by_id_def
      sort_desc_def even_config_def cand_def)
  have k: "topK even_config = Some 2" by (simp add: even_config_def)
  from fusion_ranking [of even_config "cand ''a'' 0 0"
      "[cand ''b'' 1 1, cand ''b'' (1 / 2) 0, cand ''c'' (1 / 2) 1]"]
  have pre: "prefix (slice0 (deduplicated (normalizedResults even_config (cand ''a'' 0 0)
           [cand ''b'' 1 1, cand ''b'' (1 / 2) 0, cand ''c'' (1 / 2) 1])) (topK even_config))
         (deduplicated (normalizedResults even_config (cand ''a'' 0 0)
           [cand ''b'' 1 1, cand ''b'' (1 / 2) 0, cand ''c'' (1 / 2) 1]))"
    by blast
  have "map (\<lambda>r. (r_id r, hybrid_score r))
        (slice0 (deduplicated (normalizedResults even_config (cand ''a'' 0 0)
           [cand ''b'' 1 1, cand ''b'' (1 / 2) 0, cand ''c'' (1 / 2) 1])) (topK even_config))
      = take 2 (map (\<lambda>r. (r_id r, hybrid_score r))
          (deduplicated (normalizedResults even_config (cand ''a'' 0 0)
           [cand ''b'' 1 1, cand ''b'' (1 / 2) 0, cand ''c'' (1 / 2) 1])))"
    by (simp add: k slice0_def take_map)
  with ev k pre show ?thesis by simp
qed

subsection \<open>Ties\<close>

lemma ids_score_documents:
  "ids (fst (score_documents emb text docs))
     = map d_id (filter (\<lambda>d. d_content d \<noteq> [] \<and> embedding d \<noteq> None) docs)
   \<and> ids (snd (score_documents emb text docs))
     = map d_id (filter (\<lambda>d. d_content d \<noteq> []) docs)"
  by (induction docs) (auto split: prod.splits option.splits)

lemma knn_fallback_same:
  "knn_fallback emb (fst (score_documents emb text docs)) (snd (score_documents emb text docs))
     = fst (score_documents emb text docs)"
proof (cases "fst (score_documents emb text docs) = []")
  case False then show ?thesis by (simp add: knn_fallback_def)
next
  case True
  have "fst (score_documents emb text ds) = [] \<Longrightarrow>
        (\<forall>(d, s) \<in> set (snd (score_documents emb text ds)). embedding d = None)" for ds
    by (induction ds) (auto split: prod.splits option.splits if_splits)
  from this [OF True] have "filter (\<lambda>(d, s). case embedding d of Some e \<Rightarrow> length e > 0 | None \<Rightarrow> False)
      (snd (score_documents emb text docs)) = []"
    by (auto simp: filter_empty_conv)
  with True show ?thesis by (simp add: knn_fallback_def)
qed

lemma fold_Set_add_filter:
  "distinct ys \<Longrightarrow> fold Set_add ys s = s @ filter (\<lambda>y. y \<notin> set s) ys"
proof (induction ys arbitrary: s)
  case Nil then show ?case by simp
next
  case (Cons y ys)
  then have "filter (\<lambda>z. z \<noteq> y \<and> z \<notin> set s) ys = filter (\<lambda>z. z \<notin> set s) ys"
    by (intro filter_cong) auto
  with Cons show ?case by (auto simp: Set_add_def)
qed

lemma performHybridSearch_unfold:
  assumes "documents \<noteq> []"
  shows "performHybridSearch rt documents emb text config =
     (case merged rt (fst (score_documents emb text documents))
                    (snd (score_documents emb text documents)) of
        [] \<Rightarrow> []
      | m # ms \<Rightarrow> slice0 (deduplicated (normalizedResults config m ms)) (topK config))"
proof (cases "score_documents emb text documents")
  case (Pair knn txs)
  with assms knn_fallback_same [of emb "text" documents] show ?thesis
    by (cases rt) (simp_all add: performHybridSearch_def Let_def)
qed

lemma merged_ids_documents:
  assumes "distinct (map d_id documents)"
  shows "map r_id (merged rt (fst (score_documents emb text documents))
                     (snd (score_documents emb text documents)))
         = merge_order documents"
proof -
  let ?A = "map d_id (filter (\<lambda>d. d_content d \<noteq> [] \<and> embedding d \<noteq> None) documents)"
  let ?B = "map d_id (filter (\<lambda>d. d_content d \<noteq> []) documents)"
  have dA: "distinct ?A" and dB: "distinct ?B"
    using assms by (simp_all add: distinct_map_filter)
  have "new_Set (?A @ ?B) = fold Set_add ?B (fold Set_add ?A [])"
    by (simp add: new_Set_def)
  also have "fold Set_add ?A [] = ?A"
    using fold_Set_add_filter [OF dA, of "[]"] by simp
  also have "fold Set_add ?B ?A = ?A @ filter (\<lambda>y. y \<notin> set ?A) ?B"
    by (rule fold_Set_add_filter [OF dB])
  also have "filter (\<lambda>y. y \<notin> set ?A) ?B
           = map d_id (filter (\<lambda>d. d_content d \<noteq> [] \<and> embedding d = None) documents)"
  proof -
    have inj: "inj_on d_id (set documents)" using assms by (simp add: distinct_map)
    have "filter (\<lambda>y. y \<notin> set ?A) ?B
        = map d_id (filter (\<lambda>d. d_id d \<notin> set ?A) (filter (\<lambda>d. d_content d \<noteq> []) documents))"
      by (simp add: filter_map o_def)
    also have "\<dots> = map d_id (filter (\<lambda>d. d_content d \<noteq> [] \<and> embedding d = None) documents)"
    proof -
      have "(d_id d \<in> set ?A) = (d_content d \<noteq> [] \<and> embedding d \<noteq> None)"
        if "d \<in> set documents" for d
        using inj that by (auto simp: inj_on_def)
      then have "filter (\<lambda>d. d_content d \<noteq> [] \<and> d_id d \<notin> set ?A) documents
               = filter (\<lambda>d. d_content d \<noteq> [] \<and> embedding d = None) documents"
        by (intro filter_cong refl) auto
      then show ?thesis by (simp only: filter_filter)
    qed
    finally show ?thesis .
  qed
  finally show ?thesis
    by (simp add: ids_merged ids_score_documents merge_order_def)
qed

lemma distinct_map_sort_key:
  "distinct (map g xs) \<Longrightarrow> distinct (map g (sort_key f xs))"
  by (simp add: distinct_map)

lemma ids_normalizedResults: "map r_id (normalizedResults config m ms) = map r_id (m # ms)"
  by (simp add: normalizedResults_def normalize_result_def Let_def)

lemma deduplicated_distinct:
  "distinct (map r_id xs) \<Longrightarrow> deduplicated xs = sort_desc hybrid_score xs"
  by (simp add: deduplicated_def first_by_id_unseen unseen_id sort_desc_def distinct_map_sort_key)

lemma stable_sort_desc:
  "filter (\<lambda>r. f r = h) (sort_desc f xs) = filter (\<lambda>r. f r = (h::real)) xs"
  using sort_key_stable [of "\<lambda>x. - f x" "- h" xs] by (simp add: sort_desc_def)

text \<open>
  C4, as the code has it. For a collection that is not empty and whose documents have
  distinct identifiers, the result is sorted by descending \<^verbatim>\<open>hybrid_score\<close>, the only
  ranking key, and the sort is stable: the candidates with one and the same score stand
  in the order of the merged list, which lists the documents with an embedding first and
  those without after them, each group in the order of the collection. When every
  document has an embedding, or none has, candidates with the same score therefore keep
  the order of the collection.
\<close>

theorem ties_keep_merge_order:
  assumes "documents \<noteq> []" and "distinct (map d_id documents)"
  shows "sorted_wrt (\<lambda>a b. hybrid_score a \<ge> hybrid_score b)
           (performHybridSearch rt documents emb text config)
    \<and> (\<forall>h. subseq (map r_id (filter (\<lambda>r. hybrid_score r = h)
                          (performHybridSearch rt documents emb text config)))
              (merge_order documents))
    \<and> ((\<forall>d \<in> set documents. embedding d \<noteq> None) \<or> (\<forall>d \<in> set documents. embedding d = None)
         \<longrightarrow> (\<forall>h. subseq (map r_id (filter (\<lambda>r. hybrid_score r = h)
                          (performHybridSearch rt documents emb text config)))
                    (map d_id documents)))"
proof -
  let ?out = "performHybridSearch rt documents emb text config"
  let ?merged = "merged rt (fst (score_documents emb text documents))
                    (snd (score_documents emb text documents))"
  have ids: "map r_id ?merged = merge_order documents"
    by (rule merged_ids_documents [OF assms(2)])
  have dist: "distinct (merge_order documents)"
    using distinct_new_Set [of "ids (fst (score_documents emb text documents))
       @ ids (snd (score_documents emb text documents))"]
    by (simp only: ids [symmetric] ids_merged)
  have main: "sorted_wrt (\<lambda>a b. hybrid_score a \<ge> hybrid_score b) ?out
    \<and> (\<forall>h. subseq (map r_id (filter (\<lambda>r. hybrid_score r = h) ?out)) (merge_order documents))"
  proof (cases ?merged)
    case Nil
    then show ?thesis by (simp add: performHybridSearch_unfold [OF assms(1)])
  next
    case (Cons m ms)
    let ?scored = "normalizedResults config m ms"
    have out: "?out = slice0 (sort_desc hybrid_score ?scored) (topK config)"
      using Cons ids dist
      by (simp add: performHybridSearch_unfold [OF assms(1)] deduplicated_distinct
          ids_normalizedResults)
    have pre: "prefix ?out (sort_desc hybrid_score ?scored)"
      unfolding out by (rule slice0_prefix)
    have 1: "sorted_wrt (\<lambda>a b. hybrid_score a \<ge> hybrid_score b) ?out"
      using prefix_subseq [OF pre] sorted_sort_desc by (rule sorted_wrt_subseq)
    have 2: "subseq (map r_id (filter (\<lambda>r. hybrid_score r = h) ?out)) (merge_order documents)"
      for h
    proof -
      have "subseq (filter (\<lambda>r. hybrid_score r = h) ?out)
              (filter (\<lambda>r. hybrid_score r = h) (sort_desc hybrid_score ?scored))"
        using prefix_subseq [OF pre] by (rule subseq_filter)
      also have "filter (\<lambda>r. hybrid_score r = h) (sort_desc hybrid_score ?scored)
               = filter (\<lambda>r. hybrid_score r = h) ?scored"
        by (rule stable_sort_desc)
      also have "subseq (filter (\<lambda>r. hybrid_score r = h) ?scored) ?scored"
        by simp
      finally have "subseq (filter (\<lambda>r. hybrid_score r = h) ?out) ?scored" .
      from subseq_map [OF this, of r_id] show ?thesis
        using Cons ids by (simp add: ids_normalizedResults)
    qed
    from 1 2 show ?thesis by blast
  qed
  have uniform: "merge_order documents = map d_id (filter (\<lambda>d. d_content d \<noteq> []) documents)"
    if "(\<forall>d \<in> set documents. embedding d \<noteq> None) \<or> (\<forall>d \<in> set documents. embedding d = None)"
  proof -
    from that show ?thesis
    proof
      assume a: "\<forall>d \<in> set documents. embedding d \<noteq> None"
      then have "filter (\<lambda>d. d_content d \<noteq> [] \<and> embedding d = None) documents = []"
        and "filter (\<lambda>d. d_content d \<noteq> [] \<and> embedding d \<noteq> None) documents
           = filter (\<lambda>d. d_content d \<noteq> []) documents"
        by (auto simp: filter_empty_conv intro: filter_cong)
      then show ?thesis by (simp add: merge_order_def)
    next
      assume a: "\<forall>d \<in> set documents. embedding d = None"
      then have "filter (\<lambda>d. d_content d \<noteq> [] \<and> embedding d \<noteq> None) documents = []"
        and "filter (\<lambda>d. d_content d \<noteq> [] \<and> embedding d = None) documents
           = filter (\<lambda>d. d_content d \<noteq> []) documents"
        by (auto simp: filter_empty_conv intro: filter_cong)
      then show ?thesis by (simp add: merge_order_def)
    qed
  qed
  have "subseq (merge_order documents) (map d_id documents)"
    if "(\<forall>d \<in> set documents. embedding d \<noteq> None) \<or> (\<forall>d \<in> set documents. embedding d = None)"
    unfolding uniform [OF that] by (intro subseq_map) simp
  with main show ?thesis
    by (meson subseq_order.order_trans)
qed

lemma example_similarity:
  "computeTextSimilarity (toLowerCase ''Login'') (toLowerCase ''login page'') = 1 / 2"
  by (simp add: computeTextSimilarity_def toLowerCase_def lower_char_def upper_letters_def
      lower_letters_def split_def is_space_def new_Set_def Set_add_def)

lemma example_scores:
  "score_documents [1, 0] ''Login'' [docA, docB]
   = ([(docB, 0)], [(docA, 1 / 2), (docB, 1 / 2)])"
  by (simp add: docA_def docB_def example_similarity computeCosineSimilarity_def)

lemma example_merged:
  "merged rt [(docB, 0)] [(docA, 1 / 2), (docB, 1 / 2)]
   = [(new_entry rt docB)\<lparr>bm25_score := 1 / 2\<rparr>, (new_entry rt docA)\<lparr>bm25_score := 1 / 2\<rparr>]"
  by (simp add: merged_def mergedMap_def addToMap_def set_score_def docA_def docB_def
      new_entry_def Let_def)

lemma example_search:
  "map (\<lambda>r. (r_id r, hybrid_score r))
     (performHybridSearch rt [docA, docB] [1, 0] ''Login'' even_config)
   = [(''b'', 1), (''a'', 1)]"
proof -
  have nonempty: "[docA, docB] \<noteq> []" by simp
  have eq: "performHybridSearch rt [docA, docB] [1, 0] ''Login'' even_config
      = slice0 (deduplicated (normalizedResults even_config
          ((new_entry rt docB)\<lparr>bm25_score := 1 / 2\<rparr>)
          [(new_entry rt docA)\<lparr>bm25_score := 1 / 2\<rparr>])) (topK even_config)"
    by (simp add: performHybridSearch_unfold [OF nonempty] example_scores example_merged
        del: score_documents.simps)
  have ev: "map (\<lambda>r. (r_id r, hybrid_score r))
      (slice0 (deduplicated (normalizedResults even_config
          ((new_entry rt docB)\<lparr>bm25_score := 1 / 2\<rparr>)
          [(new_entry rt docA)\<lparr>bm25_score := 1 / 2\<rparr>])) (topK even_config))
      = [(''b'', 1), (''a'', 1)]"
    by (simp add: normalizedResults_def normalize_result_def Let_def
      Math_min_def Math_max_def normalizeScore_def deduplicated_def first_by_id_def
      sort_desc_def slice0_def even_config_def new_entry_def docA_def docB_def)
  show ?thesis unfolding eq by (rule ev)
qed

theorem ties_keep_merge_order_witness:
  "[docA, docB] \<noteq> [] \<and> distinct (map d_id [docA, docB])
   \<and> merge_order [docA, docB] = [''b'', ''a'']
   \<and> subseq (map r_id (filter (\<lambda>r. hybrid_score r = 1)
                (performHybridSearch App [docA, docB] [1, 0] ''Login'' even_config)))
        [''b'', ''a'']"
proof -
  have 1: "[docA, docB] \<noteq> []" by simp
  have 2: "distinct (map d_id [docA, docB])" by (simp add: docA_def docB_def)
  have 3: "merge_order [docA, docB] = [''b'', ''a'']"
    by (simp add: merge_order_def docA_def docB_def)
  from ties_keep_merge_order [OF 1 2, of App "[1, 0]" "''Login''" even_config] 1 2 3
  show ?thesis by simp
qed

theorem ties_scan_order_counterexample:
  "map d_id [docA, docB] = [''a'', ''b'']
   \<and> map (\<lambda>r. (r_id r, hybrid_score r))
       (performHybridSearch App [docA, docB] [1, 0] ''Login'' even_config)
     = [(''b'', 1), (''a'', 1)]
   \<and> map (\<lambda>r. (r_id r, hybrid_score r))
       (performHybridSearch Pages [docA, docB] [1, 0] ''Login'' even_config)
     = [(''b'', 1), (''a'', 1)]"
  by (simp add: example_search) (simp add: docA_def docB_def)


subsection \<open>Lexical similarity\<close>

lemma split_ws_nonempty: "split_ws ws cur s \<noteq> []"
  by (induction s arbitrary: ws cur) auto

lemma split_nonempty: "split t \<noteq> []"
  by (simp add: split_def split_ws_nonempty)

lemma computeTextSimilarity_sets:
  "computeTextSimilarity t1 t2 =
     real (card (set (split t1) \<inter> set (split t2)))
     / real (card (set (split t1) \<union> set (split t2)))"
proof -
  have "set (filter (\<lambda>x. x \<in> set (new_Set (split t2))) (new_Set (split t1)))
      = set (split t1) \<inter> set (split t2)"
    by auto
  then show ?thesis
    by (simp add: computeTextSimilarity_def Let_def length_new_Set Int_commute)
qed

lemma split_ws_tokens:
  "(cur \<noteq> [] \<longrightarrow> (s = [] \<or> \<not> is_space (last s)) \<longrightarrow> split_ws False cur s = tokens_from cur s)
   \<and> (s \<noteq> [] \<longrightarrow> \<not> is_space (last s) \<longrightarrow> split_ws True [] s = tokens_from [] s)"
proof (induction s arbitrary: cur)
  case Nil then show ?case by simp
next
  case (Cons c cs)
  show ?case
  proof (cases "is_space c")
    case True
    show ?thesis
    proof (cases "\<not> is_space (last (c # cs))")
      case False
      then show ?thesis by simp
    next
      case ok: True
      with True have ne: "cs \<noteq> []" by (cases cs) auto
      with ok have "\<not> is_space (last cs)" by simp
      with ne Cons.IH [of "[]"] have "split_ws True [] cs = tokens_from [] cs" by blast
      with True show ?thesis by simp
    qed
  next
    case False
    have l: "cs = [] \<or> last (c # cs) = last cs" by (cases cs) auto
    have "split_ws False (c # d) cs = tokens_from (c # d) cs"
      if "\<not> is_space (last (c # cs))" for d
    proof -
      from that l have "cs = [] \<or> \<not> is_space (last cs)" by auto
      with Cons.IH [of "c # d"] show ?thesis by blast
    qed
    with False show ?thesis by simp
  qed
qed

lemma split_trimmed: "trimmed t \<Longrightarrow> split t = tokens_from [] t"
proof -
  assume t: "trimmed t"
  then obtain c cs where tc: "t = c # cs" by (cases t) (auto simp: trimmed_def)
  with t have c: "\<not> is_space c" and l: "cs = [] \<or> \<not> is_space (last cs)"
    by (auto simp: trimmed_def split: if_splits)
  from split_ws_tokens [of "[c]" cs] l have "split_ws False [c] cs = tokens_from [c] cs"
    by auto
  with c show ?thesis by (simp add: tc split_def)
qed

lemma is_space_lower_char [simp]: "is_space (lower_char c) = is_space c"
proof -
  have "map_of (zip upper_letters lower_letters) c = Some l \<Longrightarrow> \<not> is_space c \<and> \<not> is_space l" for l
    by (auto simp: upper_letters_def lower_letters_def is_space_def split: if_splits)
  then show ?thesis by (auto simp: lower_char_def split: option.splits)
qed

lemma trimmed_toLowerCase: "trimmed t \<Longrightarrow> trimmed (toLowerCase t)"
  by (cases t) (auto simp: trimmed_def toLowerCase_def last_map)

text \<open>
  C7, as the code has it. For every two texts the lexical score is the size of the
  intersection over the size of the union of their sets of pieces, the pieces being what
  \<^verbatim>\<open>split(/\s+/)\<close> cuts at the runs of white space (the caller lower-cases both texts).
  An empty text, and white space at the start or the end of a text, give the empty piece,
  so neither set is ever empty, and the score is 0 exactly when the two sets share no
  piece. For texts that are not empty and neither start nor end with white space the
  pieces are the tokens and the score is the Jaccard index of the token sets.
\<close>

theorem lexical_score_split:
  "computeTextSimilarity t1 t2 =
     real (card (set (split t1) \<inter> set (split t2)))
     / real (card (set (split t1) \<union> set (split t2)))
   \<and> set (split t1) \<noteq> {} \<and> set (split t2) \<noteq> {}
   \<and> (computeTextSimilarity t1 t2 = 0 \<longleftrightarrow> set (split t1) \<inter> set (split t2) = {})
   \<and> (trimmed q \<and> trimmed d \<longrightarrow>
        computeTextSimilarity (toLowerCase q) (toLowerCase d) = spec_lexical q d)"
proof (intro conjI impI)
  show 1: "computeTextSimilarity t1 t2 =
     real (card (set (split t1) \<inter> set (split t2)))
     / real (card (set (split t1) \<union> set (split t2)))"
    by (rule computeTextSimilarity_sets)
  show 2: "set (split t1) \<noteq> {}" "set (split t2) \<noteq> {}"
    by (simp_all add: split_nonempty)
  have "card (set (split t1) \<union> set (split t2)) \<noteq> 0"
    using 2 by simp
  then show "computeTextSimilarity t1 t2 = 0 \<longleftrightarrow> set (split t1) \<inter> set (split t2) = {}"
    unfolding 1 by (simp add: split_nonempty)
next
  assume "trimmed q \<and> trimmed d"
  then have q: "set (split (toLowerCase q)) = tokens q"
    and d: "set (split (toLowerCase d)) = tokens d"
    by (simp_all add: tokens_def split_trimmed trimmed_toLowerCase)
  have "tokens q \<noteq> {}" "tokens d \<noteq> {}"
    unfolding q [symmetric] d [symmetric] by (simp_all add: split_nonempty)
  then show "computeTextSimilarity (toLowerCase q) (toLowerCase d) = spec_lexical q d"
    by (simp add: computeTextSimilarity_sets q d spec_lexical_def)
qed

theorem lexical_score_split_witness:
  "trimmed ''Login page'' \<and> trimmed ''login''
   \<and> computeTextSimilarity (toLowerCase ''Login page'') (toLowerCase ''login'') = 1 / 2
   \<and> spec_lexical ''Login page'' ''login'' = 1 / 2"
proof -
  have t: "trimmed ''Login page'' \<and> trimmed ''login''"
    by (simp add: trimmed_def is_space_def)
  have ev: "computeTextSimilarity (toLowerCase ''Login page'') (toLowerCase ''login'') = 1 / 2"
    by (simp add: computeTextSimilarity_def toLowerCase_def lower_char_def upper_letters_def
        lower_letters_def split_def is_space_def new_Set_def Set_add_def)
  from lexical_score_split [of "[]" "[]" "''Login page''" "''login''"] t ev
  show ?thesis by simp
qed

theorem lexical_score_empty_counterexample:
  "tokens [] = {} \<and> spec_lexical [] [] = 0
   \<and> computeTextSimilarity (toLowerCase []) (toLowerCase []) = 1
   \<and> spec_lexical ''Login'' '' login'' = 1
   \<and> computeTextSimilarity (toLowerCase ''Login'') (toLowerCase '' login'') = 1 / 2"
proof -
  have "computeTextSimilarity (toLowerCase []) (toLowerCase []) = 1"
    by (simp add: computeTextSimilarity_def toLowerCase_def split_def new_Set_def Set_add_def)
  moreover have "computeTextSimilarity (toLowerCase ''Login'') (toLowerCase '' login'') = 1 / 2"
    by (simp add: computeTextSimilarity_def toLowerCase_def lower_char_def upper_letters_def
        lower_letters_def split_def is_space_def new_Set_def Set_add_def)
  moreover have "spec_lexical ''Login'' '' login'' = 1"
    by (simp add: spec_lexical_def tokens_def toLowerCase_def lower_char_def upper_letters_def
        lower_letters_def is_space_def)
  moreover have "tokens [] = {} \<and> spec_lexical [] [] = 0"
    by (simp add: spec_lexical_def tokens_def toLowerCase_def)
  ultimately show ?thesis by simp
qed

subsection \<open>Story normalisation\<close>

lemma lower_a_upper: "lower_char c = lower_char CHR ''a'' \<Longrightarrow> upper_char c = CHR ''A''"
  by (auto simp: lower_char_def upper_char_def upper_letters_def lower_letters_def
      split: if_splits)

lemma story_format_head:
  "rx_at story_format s \<noteq> None \<Longrightarrow> \<exists>c cs. s = c # cs \<and> lower_char c = lower_char CHR ''a''"
  by (cases s) (auto simp: rx_at_def story_format_def str_i_def chr_i_def split: if_splits)

lemma punct_search:
  "rx_search punct_rx s \<noteq> None \<longleftrightarrow> s \<noteq> [] \<and> last s \<in> set ''.!?''"
proof (induction s)
  case Nil
  show ?case by (simp add: rx_at_def punct_rx_def)
next
  case (Cons c cs)
  have "rx_at punct_rx (c # cs) \<noteq> None \<longleftrightarrow> c \<in> set ''.!?'' \<and> cs = []"
    by (simp add: rx_at_def punct_rx_def)
  with Cons show ?case
    by (cases "rx_at punct_rx (c # cs)") auto
qed

lemma capitalize_Cons: "capitalize (c # cs) = upper_char c # toLowerCase cs"
  by (simp add: capitalize_def)

lemma reconstruct_head: "\<exists>cs. reconstruct n = CHR ''A'' # cs"
  by (simp add: reconstruct_def Let_def)

lemma toLowerCase_append: "toLowerCase (xs @ ys) = toLowerCase xs @ toLowerCase ys"
  by (simp add: toLowerCase_def)

text \<open>
  C10. For every input, also one of white space only, \<^verbatim>\<open>normalizeStory\<close> returns a text
  that is not empty, starts with the capital letter A and ends with a full stop, an
  exclamation mark or a question mark. An input that is not of the form
  \<^verbatim>\<open>as a ... i want ... so that ...\<close> is rebuilt from the template; when none of the three
  extraction patterns matches, the role is \<^verbatim>\<open>user\<close>, the action the whole normalised text
  and the value \<^verbatim>\<open>achieve the desired outcome\<close>.
\<close>

theorem normalizeStory_shape:
  "normalizeStory story \<noteq> []
   \<and> hd (normalizeStory story) = CHR ''A''
   \<and> last (normalizeStory story) \<in> set ''.!?''
   \<and> (rx_at story_format (collapse_ws False (replace_crlf (trim story))) = None
      \<and> rx_search role_rx (collapse_ws False (replace_crlf (trim story))) = None
      \<and> rx_search action_rx (collapse_ws False (replace_crlf (trim story))) = None
      \<and> rx_search value_rx (collapse_ws False (replace_crlf (trim story))) = None
      \<longrightarrow> normalizeStory story =
            ''As a user, i want to '' @ toLowerCase (collapse_ws False (replace_crlf (trim story)))
            @ '' so that achieve the desired outcome.'')"
proof -
  define n0 where "n0 = collapse_ws False (replace_crlf (trim story))"
  define n1 where "n1 = (if rx_at story_format n0 = None then reconstruct n0 else n0)"
  define n2 where "n2 = capitalize n1"
  have n: "normalizeStory story = (if rx_search punct_rx n2 = None then n2 @ ''.'' else n2)"
    by (simp add: normalizeStory_def Let_def n0_def n1_def n2_def)
  have "\<exists>c cs. n1 = c # cs \<and> upper_char c = CHR ''A''"
  proof (cases "rx_at story_format n0 = None")
    case True
    from reconstruct_head [of n0] obtain cs where "reconstruct n0 = CHR ''A'' # cs" ..
    with True have "n1 = CHR ''A'' # cs" by (simp add: n1_def)
    moreover have "upper_char CHR ''A'' = CHR ''A''"
      by (simp add: upper_char_def upper_letters_def lower_letters_def)
    ultimately show ?thesis by blast
  next
    case False
    from story_format_head [OF False] obtain c cs where c: "n0 = c # cs"
      and "lower_char c = lower_char CHR ''a''" by blast
    from this(2) have "upper_char c = CHR ''A''" by (rule lower_a_upper)
    moreover from False have "n1 = n0" unfolding n1_def by (simp only: if_False)
    ultimately show ?thesis using c by blast
  qed
  then obtain cs where c2: "n2 = CHR ''A'' # toLowerCase cs"
    by (auto simp: capitalize_Cons n2_def)
  have 1: "normalizeStory story \<noteq> []" and 2: "hd (normalizeStory story) = CHR ''A''"
    unfolding n c2 by simp_all
  have 3: "last (normalizeStory story) \<in> set ''.!?''"
  proof (cases "rx_search punct_rx n2 = None")
    case True
    then show ?thesis unfolding n by simp
  next
    case False
    with punct_search [of n2] show ?thesis unfolding n by simp
  qed
  have 4: "normalizeStory story =
            ''As a user, i want to '' @ toLowerCase n0 @ '' so that achieve the desired outcome.''"
    if "rx_at story_format n0 = None \<and> rx_search role_rx n0 = None
      \<and> rx_search action_rx n0 = None \<and> rx_search value_rx n0 = None"
  proof -
    from that have r: "n1 = ''As a user, I want to '' @ n0 @ '' so that achieve the desired outcome''"
      by (simp add: reconstruct_def group1_or_def n1_def)
    have c: "n2 = ''As a user, i want to '' @ toLowerCase n0
                   @ '' so that achieve the desired outcome''"
      unfolding n2_def r
      by (simp add: capitalize_def toLowerCase_def lower_char_def upper_char_def
          upper_letters_def lower_letters_def)
    have "last n2 = CHR ''e''" unfolding c by simp
    with punct_search [of n2] have "rx_search punct_rx n2 = None"
      by (cases "rx_search punct_rx n2") simp_all
    then have "normalizeStory story = n2 @ ''.''" unfolding n by (simp only: if_True refl)
    then show ?thesis unfolding c by simp
  qed
  from 1 2 3 4 show ?thesis unfolding n0_def by blast
qed

theorem normalizeStory_shape_witness:
  "rx_at story_format (collapse_ws False (replace_crlf (trim ''   ''))) = None
   \<and> rx_search role_rx (collapse_ws False (replace_crlf (trim ''   ''))) = None
   \<and> rx_search action_rx (collapse_ws False (replace_crlf (trim ''   ''))) = None
   \<and> rx_search value_rx (collapse_ws False (replace_crlf (trim ''   ''))) = None
   \<and> normalizeStory ''   '' = ''As a user, i want to  so that achieve the desired outcome.''"
proof -
  have blank: "collapse_ws False (replace_crlf (trim ''   '')) = []"
    by (simp add: trim_def is_space_def)
  have none: "rx_at story_format [] = None \<and> rx_search role_rx [] = None
      \<and> rx_search action_rx [] = None \<and> rx_search value_rx [] = None"
    by (simp add: rx_at_def story_format_def role_rx_def action_rx_def value_rx_def
        str_i_def chr_i_def)
  from normalizeStory_shape [of "''   ''"] none show ?thesis
    unfolding blank by (simp add: toLowerCase_def)
qed

subsection \<open>Reading the answer of the judge\<close>


















subsection \<open>Ranges of the fused scores\<close>































subsection \<open>Failure of the judge\<close>




lemma candidate_enhance_one [simp]:
  "candidate (enhance_one JSON_parse chat config query i c) = c"
  by (simp add: enhance_one_def Let_def split: chat_result.splits prod.splits)










end
